theory Spec2Isabelle
  imports Complex_Main "HOL-Library.Word"
begin

unbundle bit_operations_syntax

section \<open>PeHashNG: a shallow embedding of \<^verbatim>\<open>pehashng.py\<close>\<close>

text \<open>
  The program is Python 2.7 (\<^verbatim>\<open>print\<close> statement, \<^verbatim>\<open>int.bit_length\<close>). Its integers are
  unbounded and are modelled by \<^typ>\<open>int\<close>; the bitwise operators \<^verbatim>\<open>&\<close>, \<^verbatim>\<open>|\<close>, \<^verbatim>\<open>~\<close>,
  \<^verbatim>\<open><<\<close> and \<^verbatim>\<open>>>\<close> on them are \<open>AND\<close>, \<open>OR\<close>, \<open>NOT\<close>, \<open>push_bit\<close> and \<open>drop_bit\<close> on
  \<^typ>\<open>int\<close>, which have the same two's complement reading. Every exception the source
  can raise is a value of \<open>exn\<close>, and a computation that may raise returns \<open>exn + 'a\<close>.
\<close>

subsection \<open>Exceptions\<close>

datatype exn =
    PEFormatError    \<comment> \<open>\<^verbatim>\<open>pefile.PEFormatError\<close>, the only exception the source catches\<close>
  | ReaderError      \<comment> \<open>any other exception of \<^verbatim>\<open>pefile.PE(...)\<close>, such as \<^verbatim>\<open>IOError\<close>\<close>
  | AssertionError   \<comment> \<open>the \<^verbatim>\<open>assert\<close> of \<^verbatim>\<open>align_up\<close>\<close>
  | IndexError       \<comment> \<open>\<^verbatim>\<open>DATA_DIRECTORY[idx]\<close> past the end of the list\<close>
  | StructError      \<comment> \<open>\<^verbatim>\<open>struct.error\<close>: a value outside the range of its format code\<close>

definition and_then :: "exn + 'a \<Rightarrow> ('a \<Rightarrow> exn + 'b) \<Rightarrow> exn + 'b" where
  "and_then r f = (case r of Inl e \<Rightarrow> Inl e | Inr v \<Rightarrow> f v)"

subsection \<open>Alignment utilities\<close>

text \<open>
  \<^verbatim>\<open>int.bit_length()\<close>: the number of bits of the absolute value, 0 for 0.
\<close>

fun nat_bit_length :: "nat \<Rightarrow> nat" where
  "nat_bit_length n = (if n = 0 then 0 else Suc (nat_bit_length (n div 2)))"

declare nat_bit_length.simps [simp del]

definition bit_length :: "int \<Rightarrow> nat" where
  "bit_length number = nat_bit_length (nat \<bar>number\<bar>)"

text \<open>
  \<^verbatim>\<open>return 1 << (number.bit_length() - 1) if number else 0\<close>.
  A nonzero number has a bit length of at least 1, so the shift count is never negative
  and the truncating subtraction on \<^typ>\<open>nat\<close> is the source's subtraction.
\<close>

definition align_down_p2 :: "int \<Rightarrow> int" where
  "align_down_p2 number =
     (if number \<noteq> 0 then push_bit (bit_length number - 1) 1 else 0)"

text \<open>
  \<^verbatim>\<open>assert boundary_p2 == align_down_p2(boundary_p2)\<close>, then
  \<^verbatim>\<open>boundary_p2 -= 1; return (number + boundary_p2) & ~ boundary_p2\<close>.
\<close>

definition align_up :: "int \<Rightarrow> int \<Rightarrow> exn + int" where
  "align_up number boundary_p2 =
     (if boundary_p2 \<noteq> align_down_p2 boundary_p2 then Inl AssertionError
      else let boundary_p2 = boundary_p2 - 1
           in Inr ((number + boundary_p2) AND NOT boundary_p2))"

subsection \<open>\<^verbatim>\<open>struct.pack\<close> with big-endian standard sizes\<close>

type_synonym byte = "8 word"

datatype format = Fmt_B | Fmt_H | Fmt_I | Fmt_Q

fun calcsize :: "format \<Rightarrow> nat" where
  "calcsize Fmt_B = 1"
| "calcsize Fmt_H = 2"
| "calcsize Fmt_I = 4"
| "calcsize Fmt_Q = 8"

text \<open>The \<open>n\<close> low-order bytes of \<open>v\<close>, most significant first.\<close>

fun be_bytes :: "nat \<Rightarrow> int \<Rightarrow> byte list" where
  "be_bytes 0 v = []"
| "be_bytes (Suc n) v = be_bytes n (v div 256) @ [word_of_int (v mod 256)]"

text \<open>The unsigned number a byte string denotes when read most significant byte first.\<close>

definition be_value :: "byte list \<Rightarrow> int" where
  "be_value bs = foldl (\<lambda>acc b. acc * 256 + uint b) 0 bs"

text \<open>
  \<^verbatim>\<open>pack('> H', v)\<close> and its siblings for \<^verbatim>\<open>B\<close>, \<^verbatim>\<open>I\<close> and \<^verbatim>\<open>Q\<close>. Since Python 2.7 (the
  version that introduced \<^verbatim>\<open>int.bit_length\<close>, which the program needs) a value outside
  \<open>0 \<le> v < 2 ^ (8 * size)\<close> raises \<^verbatim>\<open>struct.error\<close>; nothing is masked.
\<close>

definition pack :: "format \<Rightarrow> int \<Rightarrow> exn + byte list" where
  "pack fmt v =
     (if 0 \<le> v \<and> v < 2 ^ (8 * calcsize fmt) then Inr (be_bytes (calcsize fmt) v)
      else Inl StructError)"

subsection \<open>The view of a PE file that \<^verbatim>\<open>pefile\<close> hands over\<close>

text \<open>
  The reader \<^verbatim>\<open>pefile\<close> is a library outside the repository. The records hold the
  attributes the source reads, with the widths the PE format gives them (the reader
  unpacks a WORD as a 16-bit, a DWORD as a 32-bit and a ULONGLONG as a 64-bit unsigned
  value; the commit sizes are DWORDs in PE32 and ULONGLONGs in PE32+). The length of
  \<open>DATA_DIRECTORY\<close> is whatever the reader parsed and is not tied to
  \<open>NumberOfRvaAndSizes\<close>. \<open>raw_data\<close> is the byte string \<^verbatim>\<open>section.get_data()\<close>
  returns, and \<open>closed\<close> records whether \<^verbatim>\<open>close()\<close> was called on the object.
\<close>

record IMAGE_DATA_DIRECTORY =
  dir_VirtualAddress :: "32 word"
  dir_Size :: "32 word"

record IMAGE_FILE_HEADER =
  Characteristics :: "16 word"

record IMAGE_OPTIONAL_HEADER =
  Subsystem :: "16 word"
  SectionAlignment :: "32 word"
  FileAlignment :: "32 word"
  SizeOfStackCommit :: "64 word"
  SizeOfHeapCommit :: "64 word"
  NumberOfRvaAndSizes :: "32 word"
  DATA_DIRECTORY :: "IMAGE_DATA_DIRECTORY list"

record SectionStructure =
  sec_VirtualAddress :: "32 word"
  SizeOfRawData :: "32 word"
  sec_Characteristics :: "32 word"
  raw_data :: "byte list"

record PE =
  FILE_HEADER :: IMAGE_FILE_HEADER
  OPTIONAL_HEADER :: IMAGE_OPTIONAL_HEADER
  sections :: "SectionStructure list"
  closed :: bool

definition close :: "PE \<Rightarrow> PE" where
  "close exe = exe\<lparr>closed := True\<rparr>"

subsection \<open>Python floats\<close>

text \<open>
  A Python float is an IEEE 754 binary64 number. A finite one is a rational
  \<open>m * 2 ^ e\<close> with \<open>\<bar>m\<bar> < 2 ^ 53\<close>, and each arithmetic operation returns the exact
  result rounded to the nearest such number, ties to the even significand. The model
  represents a float by the rational it denotes. The exponent range is not modelled:
  the quantities of this program lie between \<open>2 ^ -32\<close> and \<open>2 ^ 66\<close> (a length is
  below \<open>2 ^ 63\<close>, a raw size below \<open>2 ^ 32\<close>), far from overflow and from subnormals.
\<close>

definition round_half_even :: "rat \<Rightarrow> int" where
  "round_half_even y =
     (let f = \<lfloor>y\<rfloor>; r = y - of_int f
      in if r < 1 / 2 then f
         else if 1 / 2 < r then f + 1
         else if even f then f else f + 1)"

text \<open>\<open>ilog2 x\<close> is the integer \<open>k\<close> with \<open>2 ^ k \<le> x < 2 ^ (k + 1)\<close>, for \<open>0 < x\<close>.\<close>

definition ilog2 :: "rat \<Rightarrow> int" where
  "ilog2 x =
     (let (n, d) = quotient_of x;
          k = int (bit_length n) - int (bit_length d)
      in if 2 powi k \<le> x then k else k - 1)"

definition float_round :: "rat \<Rightarrow> rat" where
  "float_round x =
     (if x = 0 then 0
      else let e = ilog2 \<bar>x\<bar> - 52
           in of_int (round_half_even (x / 2 powi e)) * 2 powi e)"

definition float_of_int :: "int \<Rightarrow> rat" where
  "float_of_int n = float_round (of_int n)"

definition float_mul :: "rat \<Rightarrow> rat \<Rightarrow> rat" where
  "float_mul x y = float_round (x * y)"

definition float_div :: "rat \<Rightarrow> rat \<Rightarrow> rat" where
  "float_div x y = float_round (x / y)"

text \<open>
  \<^verbatim>\<open>int(round(x))\<close>. Python 2's \<^verbatim>\<open>round\<close> with one argument rounds to the nearest
  integer and a tie away from zero; the result is exact, and \<^verbatim>\<open>int\<close> of it is that
  integer.
\<close>

definition py_round :: "rat \<Rightarrow> int" where
  "py_round x = (if 0 \<le> x then \<lfloor>x + 1 / 2\<rfloor> else - \<lfloor>- x + 1 / 2\<rfloor>)"

subsection \<open>Section complexity\<close>

text \<open>
  Lines 96 to 103. \<open>compress\<close> is \<^verbatim>\<open>bz2.compress\<close>, a library function, taken as a
  parameter. The integer operands of \<^verbatim>\<open>*\<close> and \<^verbatim>\<open>/\<close> are converted to floats first.
\<close>

definition complexity :: "(byte list \<Rightarrow> byte list) \<Rightarrow> SectionStructure \<Rightarrow> int" where
  "complexity compress section =
     (if SizeOfRawData section \<noteq> 0 then
        let c = float_div
                  (float_mul (float_of_int (int (length (compress (raw_data section))))) 7)
                  (float_of_int (uint (SizeOfRawData section)))
        in if 7 < c then 8 else py_round c
      else 0)"

subsection \<open>The fields that are hashed\<close>

text \<open>
  Lines 77 to 80: the loop over \<^verbatim>\<open>range(min(NumberOfRvaAndSizes, 16))\<close>. Indexing the
  Python list past its end raises \<^verbatim>\<open>IndexError\<close>.
\<close>

fun dirs_loop :: "IMAGE_DATA_DIRECTORY list \<Rightarrow> nat list \<Rightarrow> int \<Rightarrow> exn + int" where
  "dirs_loop dirs [] dirs_status = Inr dirs_status"
| "dirs_loop dirs (idx # rest) dirs_status =
     (if idx < length dirs then
        dirs_loop dirs rest
          (if dir_VirtualAddress (dirs ! idx) \<noteq> 0 then dirs_status OR push_bit idx 1
           else dirs_status)
      else Inl IndexError)"

definition dirs_status :: "IMAGE_OPTIONAL_HEADER \<Rightarrow> exn + int" where
  "dirs_status oh =
     dirs_loop (DATA_DIRECTORY oh) [0..<min (unat (NumberOfRvaAndSizes oh)) 16] 0"

text \<open>The mask \<^verbatim>\<open>0b0111111001111111\<close> of line 81.\<close>

definition dirs_mask :: int where
  "dirs_mask = 0x7E7F"

text \<open>Lines 50 to 81: the seven strings appended to \<^verbatim>\<open>data\<close> for the headers.\<close>

definition header_data :: "PE \<Rightarrow> exn + byte list list" where
  "header_data exe =
     and_then (pack Fmt_H (uint (Characteristics (FILE_HEADER exe)))) (\<lambda>d1.
     and_then (pack Fmt_H (uint (Subsystem (OPTIONAL_HEADER exe)))) (\<lambda>d2.
     and_then (pack Fmt_I (align_down_p2 (uint (SectionAlignment (OPTIONAL_HEADER exe))))) (\<lambda>d3.
     and_then (pack Fmt_I (align_down_p2 (uint (FileAlignment (OPTIONAL_HEADER exe))))) (\<lambda>d4.
     and_then (align_up (uint (SizeOfStackCommit (OPTIONAL_HEADER exe))) 4096) (\<lambda>stack.
     and_then (pack Fmt_Q stack) (\<lambda>d5.
     and_then (align_up (uint (SizeOfHeapCommit (OPTIONAL_HEADER exe))) 4096) (\<lambda>heap.
     and_then (pack Fmt_Q heap) (\<lambda>d6.
     and_then (dirs_status (OPTIONAL_HEADER exe)) (\<lambda>status.
     and_then (pack Fmt_H (status AND dirs_mask)) (\<lambda>d7.
     Inr [d1, d2, d3, d4, d5, d6, d7]))))))))))"

text \<open>Lines 85 to 104: the four strings appended for one section.\<close>

definition section_data ::
  "(byte list \<Rightarrow> byte list) \<Rightarrow> SectionStructure \<Rightarrow> exn + byte list list" where
  "section_data compress section =
     and_then (align_up (uint (sec_VirtualAddress section)) 512) (\<lambda>va.
     and_then (pack Fmt_I va) (\<lambda>d1.
     and_then (align_up (uint (SizeOfRawData section)) 256) (\<lambda>sz.
     and_then (pack Fmt_I sz) (\<lambda>d2.
     and_then (pack Fmt_B (drop_bit 24 (uint (sec_Characteristics section)))) (\<lambda>d3.
     and_then (pack Fmt_B (complexity compress section)) (\<lambda>d4.
     Inr [d1, d2, d3, d4]))))))"

text \<open>Line 84: the loop over \<^verbatim>\<open>exe.sections\<close>, extending \<^verbatim>\<open>data\<close>.\<close>

fun sections_loop ::
  "(byte list \<Rightarrow> byte list) \<Rightarrow> SectionStructure list \<Rightarrow> byte list list
     \<Rightarrow> exn + byte list list" where
  "sections_loop compress [] data = Inr data"
| "sections_loop compress (section # rest) data =
     and_then (section_data compress section)
       (\<lambda>ds. sections_loop compress rest (data @ ds))"

definition structural_data ::
  "(byte list \<Rightarrow> byte list) \<Rightarrow> PE \<Rightarrow> exn + byte list list" where
  "structural_data compress exe =
     and_then (header_data exe) (\<lambda>data. sections_loop compress (sections exe) data)"

subsection \<open>The digest\<close>

text \<open>
  \<^verbatim>\<open>sha256(s).hexdigest()\<close>: the hash function itself is \<^verbatim>\<open>hashlib\<close>'s and is a
  parameter returning the raw digest; \<open>hexdigest\<close> writes each byte as two lowercase
  hexadecimal digits.
\<close>

definition hex_digit :: "nat \<Rightarrow> char" where
  "hex_digit n = ''0123456789abcdef'' ! n"

definition hexdigest :: "byte list \<Rightarrow> string" where
  "hexdigest bs = concat (map (\<lambda>b. [hex_digit (unat b div 16), hex_digit (unat b mod 16)]) bs)"

subsection \<open>\<^verbatim>\<open>pehashng\<close>\<close>

text \<open>
  The argument is a file name or an instance of \<^verbatim>\<open>pefile.PE\<close>. A call ends by returning
  a value (\<open>Inr None\<close> for Python's \<^verbatim>\<open>None\<close>, \<open>Inr (Some digest)\<close> otherwise) or by
  raising (\<open>Inl\<close>). Besides that it has two effects, which the outcome records: the
  state in which it leaves the PE object it worked on, and the records it sent to
  \<^verbatim>\<open>logging\<close>.
\<close>

datatype pe_file = FileName string | Instance PE

record outcome =
  returned :: "exn + string option"
  exe_after :: "PE option"
  log_after :: "string list"

text \<open>
  \<open>PE_new\<close> is the constructor \<^verbatim>\<open>PE(pe_file, fast_load=True)\<close>, \<open>sha256\<close> and \<open>compress\<close>
  are the library functions, \<open>logged\<close> holds the records logged before the call.
\<close>

definition pehashng ::
  "(string \<Rightarrow> exn + PE) \<Rightarrow> (byte list \<Rightarrow> byte list) \<Rightarrow> (byte list \<Rightarrow> byte list)
     \<Rightarrow> pe_file \<Rightarrow> string list \<Rightarrow> outcome" where
  "pehashng PE_new sha256 compress pe_file logged =
     (case pe_file of
        Instance exe \<Rightarrow>
          (case structural_data compress exe of
             Inl e \<Rightarrow> \<lparr>returned = Inl e, exe_after = Some exe, log_after = logged\<rparr>
           | Inr data \<Rightarrow>
               \<lparr>returned = Inr (Some (hexdigest (sha256 (concat data)))),
                exe_after = Some exe, log_after = logged\<rparr>)
      | FileName name \<Rightarrow>
          (case PE_new name of
             Inl e \<Rightarrow>
               if e = PEFormatError
               then \<lparr>returned = Inr None, exe_after = None,
                     log_after = logged @ [''Exception in pefile:'']\<rparr>
               else \<lparr>returned = Inl e, exe_after = None, log_after = logged\<rparr>
           | Inr exe \<Rightarrow>
               (case structural_data compress exe of
                  Inl e \<Rightarrow> \<lparr>returned = Inl e, exe_after = Some exe, log_after = logged\<rparr>
                | Inr data \<Rightarrow>
                    \<lparr>returned = Inr (Some (hexdigest (sha256 (concat data)))),
                     exe_after = Some (close exe), log_after = logged\<rparr>)))"


section \<open>The specification's reading of the hashed fields\<close>

text \<open>
  The definitions of this section follow the wording of the specification, not the
  source; the theorems below compare them with the embedding above.
\<close>

text \<open>The smallest multiple of \<open>b\<close> that is at least \<open>n\<close>, for \<open>0 < b\<close>.\<close>

definition align_up_value :: "int \<Rightarrow> int \<Rightarrow> int" where
  "align_up_value n b = ((n + b - 1) div b) * b"

text \<open>Round to the nearest integer, a tie away from zero.\<close>

definition round_half_away :: "rat \<Rightarrow> int" where
  "round_half_away x = (if x < 0 then - \<lfloor>\<bar>x\<bar> + 1 / 2\<rfloor> else \<lfloor>\<bar>x\<bar> + 1 / 2\<rfloor>)"

text \<open>
  \<open>ratio = compressedLength * 7.0 / rawSize\<close>, read as an exact quotient; 8 if the
  ratio exceeds 7, else the ratio rounded.
\<close>

definition complexity_spec :: "nat \<Rightarrow> nat \<Rightarrow> int" where
  "complexity_spec compressed_length raw_size =
     (let ratio = (of_nat compressed_length * 7 / of_nat raw_size :: rat)
      in if 7 < ratio then 8 else round_half_away ratio)"

definition expected_complexity ::
  "(byte list \<Rightarrow> byte list) \<Rightarrow> SectionStructure \<Rightarrow> int" where
  "expected_complexity compress section =
     (if SizeOfRawData section = 0 then 0
      else complexity_spec (length (compress (raw_data section)))
             (unat (SizeOfRawData section)))"

text \<open>
  The 16-bit bitmap: bit \<open>i\<close> is set exactly when \<open>i\<close> is below
  \<open>min numberOfRvaAndSizes 16\<close>, is none of 7, 8 and 15, and directory \<open>i\<close> has a
  nonzero virtual address. \<open>horner_sum of_bool 2\<close> reads a list of bits, least
  significant first, as a number.
\<close>

definition expected_bitmap :: "IMAGE_OPTIONAL_HEADER \<Rightarrow> int" where
  "expected_bitmap oh =
     horner_sum of_bool 2
       (map (\<lambda>i. i < min (unat (NumberOfRvaAndSizes oh)) 16 \<and> i \<noteq> 7 \<and> i \<noteq> 8 \<and> i \<noteq> 15
                 \<and> dir_VirtualAddress (DATA_DIRECTORY oh ! i) \<noteq> 0)
            [0..<16])"

definition header_bytes :: "PE \<Rightarrow> byte list" where
  "header_bytes exe =
     be_bytes 2 (uint (Characteristics (FILE_HEADER exe)))
     @ be_bytes 2 (uint (Subsystem (OPTIONAL_HEADER exe)))
     @ be_bytes 4 (align_down_p2 (uint (SectionAlignment (OPTIONAL_HEADER exe))))
     @ be_bytes 4 (align_down_p2 (uint (FileAlignment (OPTIONAL_HEADER exe))))
     @ be_bytes 8 (align_up_value (uint (SizeOfStackCommit (OPTIONAL_HEADER exe))) 4096)
     @ be_bytes 8 (align_up_value (uint (SizeOfHeapCommit (OPTIONAL_HEADER exe))) 4096)
     @ be_bytes 2 (expected_bitmap (OPTIONAL_HEADER exe))"

definition section_bytes :: "(byte list \<Rightarrow> byte list) \<Rightarrow> SectionStructure \<Rightarrow> byte list" where
  "section_bytes compress section =
     be_bytes 4 (align_up_value (uint (sec_VirtualAddress section)) 512)
     @ be_bytes 4 (align_up_value (uint (SizeOfRawData section)) 256)
     @ be_bytes 1 (uint (sec_Characteristics section) div 2 ^ 24)
     @ be_bytes 1 (expected_complexity compress section)"

definition structural_bytes :: "(byte list \<Rightarrow> byte list) \<Rightarrow> PE \<Rightarrow> byte list" where
  "structural_bytes compress exe =
     header_bytes exe @ concat (map (section_bytes compress) (sections exe))"

text \<open>
  The aligned values that have to fit their field for the byte string to exist, and the
  directory entries that have to exist for the bitmap to be built.
\<close>

definition fields_fit :: "PE \<Rightarrow> bool" where
  "fields_fit exe \<longleftrightarrow>
     align_up_value (uint (SizeOfStackCommit (OPTIONAL_HEADER exe))) 4096 < 2 ^ 64
     \<and> align_up_value (uint (SizeOfHeapCommit (OPTIONAL_HEADER exe))) 4096 < 2 ^ 64
     \<and> min (unat (NumberOfRvaAndSizes (OPTIONAL_HEADER exe))) 16
          \<le> length (DATA_DIRECTORY (OPTIONAL_HEADER exe))
     \<and> list_all (\<lambda>section.
            align_up_value (uint (sec_VirtualAddress section)) 512 < 2 ^ 32
            \<and> align_up_value (uint (SizeOfRawData section)) 256 < 2 ^ 32)
          (sections exe)"

section \<open>Example inputs\<close>

text \<open>
  The end-to-end scenario of the specification: one code section of 512 zero bytes and
  no directory entries.
\<close>

definition scenario_section :: SectionStructure where
  "scenario_section =
     \<lparr>sec_VirtualAddress = 0x1000, SizeOfRawData = 512, sec_Characteristics = 0x60000020,
      raw_data = replicate 512 0\<rparr>"

definition scenario_exe :: PE where
  "scenario_exe =
     \<lparr>FILE_HEADER = \<lparr>Characteristics = 0x0102\<rparr>,
      OPTIONAL_HEADER =
        \<lparr>Subsystem = 2, SectionAlignment = 0x1000, FileAlignment = 0x200,
         SizeOfStackCommit = 0x1000, SizeOfHeapCommit = 0x100000,
         NumberOfRvaAndSizes = 0, DATA_DIRECTORY = []\<rparr>,
      sections = [scenario_section],
      closed = False\<rparr>"

text \<open>The same file with the section placed at the top of the 32-bit address space.\<close>

definition high_section_exe :: PE where
  "high_section_exe =
     scenario_exe\<lparr>sections := [scenario_section\<lparr>sec_VirtualAddress := 0xFFFFFFFF\<rparr>]\<rparr>"

text \<open>Sixteen directories, all absent, and the same with directories 7, 8 and 15 present.\<close>

definition absent_dir :: IMAGE_DATA_DIRECTORY where
  "absent_dir = \<lparr>dir_VirtualAddress = 0, dir_Size = 0\<rparr>"

definition present_dir :: IMAGE_DATA_DIRECTORY where
  "present_dir = \<lparr>dir_VirtualAddress = 0x2000, dir_Size = 0x40\<rparr>"

definition sixteen_dirs_exe :: PE where
  "sixteen_dirs_exe =
     scenario_exe\<lparr>OPTIONAL_HEADER :=
       (OPTIONAL_HEADER scenario_exe)
         \<lparr>NumberOfRvaAndSizes := 16, DATA_DIRECTORY := replicate 16 absent_dir\<rparr>\<rparr>"

definition masked_dirs_exe :: PE where
  "masked_dirs_exe =
     scenario_exe\<lparr>OPTIONAL_HEADER :=
       (OPTIONAL_HEADER scenario_exe)
         \<lparr>NumberOfRvaAndSizes := 16,
          DATA_DIRECTORY :=
            (replicate 16 absent_dir)[7 := present_dir, 8 := present_dir, 15 := present_dir]\<rparr>\<rparr>"

text \<open>Sixteen directories, all present.\<close>

definition all_dirs_exe :: PE where
  "all_dirs_exe =
     scenario_exe\<lparr>OPTIONAL_HEADER :=
       (OPTIONAL_HEADER scenario_exe)
         \<lparr>NumberOfRvaAndSizes := 16, DATA_DIRECTORY := replicate 16 present_dir\<rparr>\<rparr>"

text \<open>Stand-ins for the library functions, for evaluating the model on the examples.\<close>

definition fourteen_bytes :: "byte list \<Rightarrow> byte list" where
  "fourteen_bytes bs = replicate 14 0"

definition plain_bytes :: "byte list \<Rightarrow> byte list" where
  "plain_bytes bs = bs"

text \<open>
  A reader that rejects every file, and readers that parse every file as one of the
  examples.
\<close>

definition rejecting_reader :: "string \<Rightarrow> exn + PE" where
  "rejecting_reader name = Inl PEFormatError"

definition scenario_reader :: "string \<Rightarrow> exn + PE" where
  "scenario_reader name = Inr scenario_exe"

definition high_section_reader :: "string \<Rightarrow> exn + PE" where
  "high_section_reader name = Inr high_section_exe"

section \<open>Alignment utilities: properties\<close>

lemma nat_bit_length_bounds:
  "0 < n \<Longrightarrow> 2 ^ (nat_bit_length n - 1) \<le> n \<and> n < 2 ^ nat_bit_length n"
proof (induction n rule: nat_bit_length.induct)
  case (1 n)
  show ?case
  proof (cases "n div 2 = 0")
    case True
    with "1.prems" have "n = 1" by presburger
    then show ?thesis by (simp add: nat_bit_length.simps)
  next
    case False
    with "1.IH" "1.prems"
    have ih: "2 ^ (nat_bit_length (n div 2) - 1) \<le> n div 2" "n div 2 < 2 ^ nat_bit_length (n div 2)"
      by auto
    have pos: "0 < nat_bit_length (n div 2)"
      using False by (simp add: nat_bit_length.simps [of "n div 2"])
    have eq: "nat_bit_length n = Suc (nat_bit_length (n div 2))"
      using "1.prems" by (simp add: nat_bit_length.simps [of n])
    have "2 * 2 ^ (nat_bit_length (n div 2) - 1) \<le> n"
      using ih(1) by presburger
    moreover have "2 * 2 ^ (nat_bit_length (n div 2) - 1) = (2::nat) ^ nat_bit_length (n div 2)"
      using pos by (cases "nat_bit_length (n div 2)") auto
    moreover have "n < 2 * 2 ^ nat_bit_length (n div 2)"
      using ih(2) by presburger
    ultimately show ?thesis
      by (simp add: eq)
  qed
qed

lemma nat_bit_length_unique:
  assumes "2 ^ k \<le> n" "n < 2 ^ Suc k"
  shows "nat_bit_length n = Suc k"
proof -
  have pos: "0 < n" using assms(1) by (metis less_le_trans zero_less_numeral zero_less_power)
  note b = nat_bit_length_bounds [OF pos]
  have "(2::nat) ^ k < 2 ^ nat_bit_length n"
    using assms(1) b by (meson le_less_trans)
  then have 1: "k < nat_bit_length n" by (simp add: power_strict_increasing_iff)
  have "(2::nat) ^ (nat_bit_length n - 1) < 2 ^ Suc k"
    using assms(2) b by (meson le_less_trans)
  then have 2: "nat_bit_length n - 1 < Suc k" by (simp only: power_strict_increasing_iff one_less_numeral_iff semiring_norm)
  from 1 2 show ?thesis by linarith
qed

lemma align_down_p2_bounds:
  assumes "0 < n"
  shows "\<exists>k. align_down_p2 n = 2 ^ k \<and> 2 ^ k \<le> n \<and> n < 2 ^ Suc k"
proof -
  from assms have pos: "0 < nat n" by simp
  note b = nat_bit_length_bounds [OF pos]
  let ?k = "nat_bit_length (nat n) - 1"
  have k1: "0 < nat_bit_length (nat n)"
    using pos by (simp add: nat_bit_length.simps [of "nat n"])
  have "int (2 ^ ?k) \<le> int (nat n)" using b by (simp only: of_nat_le_iff)
  then have le: "(2::int) ^ ?k \<le> n" using assms by simp
  have "int (nat n) < int (2 ^ nat_bit_length (nat n))" using b by (simp only: of_nat_less_iff)
  then have "n < 2 ^ nat_bit_length (nat n)" using assms by simp
  moreover have "nat_bit_length (nat n) = Suc ?k" using k1 by simp
  ultimately have lt: "n < 2 ^ Suc ?k" by metis
  have "align_down_p2 n = 2 ^ ?k"
    using assms by (simp add: align_down_p2_def bit_length_def push_bit_eq_mult)
  with le lt show ?thesis by blast
qed

lemma align_down_p2_power: "align_down_p2 (2 ^ k) = 2 ^ k"
proof -
  have "nat \<bar>(2::int) ^ k\<bar> = 2 ^ k" by (simp add: nat_power_eq)
  moreover have "nat_bit_length (2 ^ k) = Suc k"
    by (rule nat_bit_length_unique) auto
  ultimately have "bit_length (2 ^ k) = Suc k"
    by (simp only: bit_length_def)
  then show ?thesis
    by (simp add: align_down_p2_def push_bit_eq_mult)
qed

lemma and_not_mask_int: "(a::int) AND NOT (mask k) = (a div 2 ^ k) * 2 ^ k"
proof -
  have "a AND NOT (mask k) = push_bit k (drop_bit k a)"
    by (rule bit_eqI) (auto simp add: bit_simps)
  then show ?thesis by (simp add: push_bit_eq_mult drop_bit_eq_div)
qed

lemma align_up_power:
  "align_up n (2 ^ k) = Inr (((n + 2 ^ k - 1) div 2 ^ k) * 2 ^ k)"
proof -
  have "((2::int) ^ k - 1) = mask k" by (simp add: mask_eq_exp_minus_1)
  moreover have "n + ((2::int) ^ k - 1) = n + 2 ^ k - 1" by simp
  ultimately have "(n + (2 ^ k - 1)) AND NOT (2 ^ k - 1) = ((n + 2 ^ k - 1) div 2 ^ k) * 2 ^ k"
    by (simp only: and_not_mask_int)
  then show ?thesis
    by (simp add: align_up_def align_down_p2_power Let_def)
qed


text \<open>
  Claim C6. \<open>align_down_p2 0 = 0\<close>, and for every \<open>n > 0\<close> the result is
  \<open>1 << floor(log2(n))\<close>, a power of two that is at most \<open>n\<close> and at least every power
  of two that is at most \<open>n\<close>. The function is a total HOL function with a plain
  integer result: it has no error path.
\<close>

theorem align_down_p2_largest_power:
  "align_down_p2 0 = 0 \<and>
   (0 < n \<longrightarrow> align_down_p2 n = 2 ^ nat \<lfloor>log 2 (real_of_int n)\<rfloor>
      \<and> align_down_p2 n \<le> n
      \<and> (\<forall>j. 2 ^ j \<le> n \<longrightarrow> 2 ^ j \<le> align_down_p2 n))"
proof (intro conjI impI)
  show "align_down_p2 0 = 0" by (simp add: align_down_p2_def)
next
  assume pos: "0 < n"
  from align_down_p2_bounds [OF pos] obtain k where
    k: "align_down_p2 n = 2 ^ k" "2 ^ k \<le> n" "n < 2 ^ Suc k" by blast
  have "2 ^ k \<le> nat n" "nat n < 2 ^ (k + 1)"
    using k(2,3) pos by (simp_all add: le_nat_iff nat_less_iff)
  then have "\<lfloor>log (real 2) (real (nat n))\<rfloor> = int k"
    by (intro floor_log_nat_eq_if) auto
  then have "nat \<lfloor>log 2 (real_of_int n)\<rfloor> = k" using pos by simp
  with k(1) show "align_down_p2 n = 2 ^ nat \<lfloor>log 2 (real_of_int n)\<rfloor>" by simp
  show "align_down_p2 n \<le> n" using k by simp
  show "\<forall>j. 2 ^ j \<le> n \<longrightarrow> 2 ^ j \<le> align_down_p2 n"
  proof (intro allI impI)
    fix j assume "(2::int) ^ j \<le> n"
    with k(3) have "(2::int) ^ j < 2 ^ Suc k" by linarith
    then have "j < Suc k" by (simp only: power_strict_increasing_iff one_less_numeral_iff semiring_norm)
    then have "j \<le> k" by simp
    then have "(2::int) ^ j \<le> 2 ^ k" by (simp add: power_increasing)
    with k(1) show "2 ^ j \<le> align_down_p2 n" by simp
  qed
qed


theorem align_down_p2_largest_power_witness:
  "(0::int) < 12 \<and> align_down_p2 12 = 8 \<and> (2::int) ^ nat \<lfloor>log 2 (real_of_int 12)\<rfloor> = 8
     \<and> (2::int) ^ 3 \<le> 12 \<and> (2::int) ^ 3 \<le> align_down_p2 12"
proof -
  have v: "align_down_p2 12 = 8"
    by (simp add: align_down_p2_def bit_length_def nat_bit_length.simps)
  have p: "(0::int) < 12" by simp
  from align_down_p2_largest_power [of 12] p
  have "align_down_p2 12 = 2 ^ nat \<lfloor>log 2 (real_of_int 12)\<rfloor>" by blast
  with v have "(2::int) ^ nat \<lfloor>log 2 (real_of_int 12)\<rfloor> = 8" by simp
  with v p show ?thesis by simp
qed

text \<open>
  Claim C5. For every boundary \<open>b = 2 ^ k\<close> and every integer \<open>n\<close> (so in particular
  every unsigned one), \<open>align_up n b\<close> passes its assertion and returns a multiple \<open>r\<close>
  of \<open>b\<close> with \<open>r - b < n \<le> r\<close>, which is the smallest multiple of \<open>b\<close> that is at
  least \<open>n\<close>.
\<close>

theorem align_up_smallest_multiple:
  "\<exists>r. align_up n (2 ^ k) = Inr r \<and> 2 ^ k dvd r \<and> r - 2 ^ k < n \<and> n \<le> r
       \<and> (\<forall>m. 2 ^ k dvd m \<and> n \<le> m \<longrightarrow> r \<le> m)"
proof -
  let ?b = "(2::int) ^ k"
  let ?r = "((n + ?b - 1) div ?b) * ?b"
  have bpos: "0 < ?b" by simp
  have r1: "?b dvd ?r" by simp
  have e: "?r = (n + ?b - 1) - (n + ?b - 1) mod ?b"
    by (simp add: minus_mod_eq_div_mult)
  have m0: "0 \<le> (n + ?b - 1) mod ?b" and m1: "(n + ?b - 1) mod ?b < ?b"
    using bpos by simp_all
  have r2: "?r - ?b < n" using e m0 by linarith
  have r3: "n \<le> ?r" using e m1 by linarith
  have r4: "\<forall>m. ?b dvd m \<and> n \<le> m \<longrightarrow> ?r \<le> m"
  proof (intro allI impI)
    fix m assume h: "?b dvd m \<and> n \<le> m"
    then obtain q where q: "m = ?b * q" by (auto elim: dvdE)
    have "?r - ?b < ?b * q" using r2 h q by linarith
    then have "?b * ((n + ?b - 1) div ?b - 1) < ?b * q"
      by (simp add: algebra_simps)
    then have "(n + ?b - 1) div ?b - 1 < q" using bpos by (simp only: mult_less_cancel_left_pos)
    then have "(n + ?b - 1) div ?b \<le> q" by linarith
    then have "?b * ((n + ?b - 1) div ?b) \<le> ?b * q" using bpos by (simp only: mult_le_cancel_left_pos)
    then show "?r \<le> m" using q by (simp add: mult.commute)
  qed
  show ?thesis
    using align_up_power [of n k] r1 r2 r3 r4 by blast
qed


theorem align_up_smallest_multiple_witness:
  "align_up 4097 (2 ^ 12) = Inr 8192 \<and> (2::int) ^ 12 dvd 8192 \<and> (8192::int) - 2 ^ 12 < 4097
     \<and> (4097::int) \<le> 8192 \<and> (2::int) ^ 12 dvd 12288 \<and> (4097::int) \<le> 12288
     \<and> (8192::int) \<le> 12288"
proof -
  from align_up_smallest_multiple [of 4097 12] obtain r where
    r: "align_up 4097 (2 ^ 12) = Inr r" "2 ^ 12 dvd r" "r - 2 ^ 12 < 4097" "4097 \<le> r"
       "\<forall>m. 2 ^ 12 dvd m \<and> 4097 \<le> m \<longrightarrow> r \<le> m"
    by blast
  have v: "align_up 4097 4096 = Inr 8192"
    by (simp add: align_up_def align_down_p2_def bit_length_def nat_bit_length.simps)
  with r(1) have "r = 8192" by simp
  moreover have d: "(2::int) ^ 12 dvd 12288" by simp
  moreover from r(5) d have "r \<le> 12288" by simp
  ultimately show ?thesis using v r(2,3,4) by simp
qed

section \<open>Packing and hexadecimal rendering: sanity of the library models\<close>

lemma be_bytes_length: "length (be_bytes n v) = n"
  by (induction n arbitrary: v) simp_all

lemma be_value_snoc: "be_value (bs @ [b]) = be_value bs * 256 + uint b"
  by (simp add: be_value_def)

lemma be_value_be_bytes:
  "0 \<le> v \<Longrightarrow> v < 2 ^ (8 * n) \<Longrightarrow> be_value (be_bytes n v) = v"
proof (induction n arbitrary: v)
  case 0
  then show ?case by (simp add: be_value_def)
next
  case (Suc n)
  have "v < 256 * 2 ^ (8 * n)" using Suc.prems(2) by (simp add: power_add)
  then have hi: "v div 256 < 2 ^ (8 * n)" by (simp add: div_less_iff_less_mult mult.commute)
  have lo: "0 \<le> v div 256" using Suc.prems(1) by (simp add: pos_imp_zdiv_nonneg_iff)
  have b: "uint (word_of_int (v mod 256) :: byte) = v mod 256"
    by (simp add: uint_word_of_int take_bit_eq_mod)
  from Suc.IH [OF lo hi] show ?case
    by (simp add: be_value_snoc b)
qed

lemma pack_roundtrip:
  assumes "pack fmt v = Inr bs"
  shows "length bs = calcsize fmt \<and> be_value bs = v"
proof -
  from assms have r: "0 \<le> v" "v < 2 ^ (8 * calcsize fmt)" and bs: "bs = be_bytes (calcsize fmt) v"
    by (auto simp add: pack_def split: if_splits)
  from be_value_be_bytes [OF r] bs show ?thesis by (simp add: be_bytes_length)
qed

lemma hex_digit_lowercase: "n < 16 \<Longrightarrow> hex_digit n \<in> set ''0123456789abcdef''"
  unfolding hex_digit_def by (rule nth_mem) simp

lemma hexdigest_length: "length (hexdigest bs) = 2 * length bs"
  by (induction bs) (simp_all add: hexdigest_def)

lemma hexdigest_lowercase: "set (hexdigest bs) \<subseteq> set ''0123456789abcdef''"
proof -
  have "\<And>b :: byte. unat b div 16 < 16"
  proof -
    fix b :: byte
    have "unat b < 256" using unsigned_less [of b, where ?'a = nat] by simp
    then show "unat b div 16 < 16" by simp
  qed
  moreover have "\<And>b :: byte. unat b mod 16 < 16" by simp
  ultimately have "\<And>b :: byte. hex_digit (unat b div 16) \<in> set ''0123456789abcdef''
      \<and> hex_digit (unat b mod 16) \<in> set ''0123456789abcdef''"
    using hex_digit_lowercase by blast
  then show ?thesis
    unfolding hexdigest_def by (induction bs) auto
qed

section \<open>Section complexity: the float computation is exact where it matters\<close>

lemma round_half_even_bounds:
  "\<lfloor>y\<rfloor> \<le> round_half_even y \<and> round_half_even y \<le> \<lceil>y\<rceil>"
proof -
  have "y - of_int \<lfloor>y\<rfloor> \<noteq> 0 \<Longrightarrow> \<lceil>y\<rceil> = \<lfloor>y\<rfloor> + 1"
    by (simp add: ceiling_altdef)
  moreover have "\<lfloor>y\<rfloor> \<le> \<lceil>y\<rceil>" by (rule floor_le_ceiling)
  ultimately show ?thesis
    by (auto simp add: round_half_even_def Let_def)
qed

lemma bit_length_bounds:
  assumes "0 < n"
  shows "(2::int) ^ (bit_length n - 1) \<le> n \<and> n < 2 ^ bit_length n \<and> 0 < bit_length n"
proof -
  from assms have pos: "0 < nat n" by simp
  note b = nat_bit_length_bounds [OF pos]
  have eq: "bit_length n = nat_bit_length (nat n)"
    using assms by (simp add: bit_length_def)
  have "int (2 ^ (nat_bit_length (nat n) - 1)) \<le> int (nat n)"
    using b by (simp only: of_nat_le_iff)
  then have 1: "(2::int) ^ (bit_length n - 1) \<le> n" using assms eq by simp
  have "int (nat n) < int (2 ^ nat_bit_length (nat n))"
    using b by (simp only: of_nat_less_iff)
  then have 2: "n < 2 ^ bit_length n" using assms eq by simp
  have 3: "0 < bit_length n"
    using pos eq by (simp add: nat_bit_length.simps [of "nat n"])
  from 1 2 3 show ?thesis by simp
qed

lemma ilog2_bounds:
  assumes "0 < x"
  shows "2 powi (ilog2 x) \<le> x \<and> x < 2 powi (ilog2 x + 1)"
proof -
  obtain n d where q: "quotient_of x = (n, d)" by (cases "quotient_of x")
  have dpos: "0 < d" using q by (rule quotient_of_denom_pos)
  have x: "x = of_int n / of_int d" using q by (rule quotient_of_div)
  have npos: "0 < n"
    using assms dpos x by (simp add: zero_less_divide_iff)
  let ?a = "bit_length n" and ?b = "bit_length d"
  note bn = bit_length_bounds [OF npos] and bd = bit_length_bounds [OF dpos]
  define k where "k = int ?a - int ?b"
  have rd: "(0::rat) < of_int d" using dpos by simp
  have rn: "(0::rat) < of_int n" using npos by simp
  have up: "x < 2 powi (k + 1)"
  proof -
    have "(of_int n :: rat) < of_int ((2::int) ^ ?a)" using bn by (simp only: of_int_less_iff)
    then have n1: "(of_int n :: rat) < 2 ^ ?a" by simp
    have "(of_int ((2::int) ^ (?b - 1)) :: rat) \<le> of_int d" using bd by (simp only: of_int_le_iff)
    then have d1: "(2::rat) ^ (?b - 1) \<le> of_int d" by simp
    have "x < 2 ^ ?a / 2 ^ (?b - 1)"
      unfolding x using n1 d1 rn by (intro frac_less) auto
    also have "\<dots> = (2::rat) powi (int ?a - int (?b - 1))"
      by (simp add: power_int_diff)
    also have "int ?a - int (?b - 1) = k + 1" using bd by (simp add: k_def)
    finally show ?thesis .
  qed
  have lo: "2 powi (k - 1) < x"
  proof -
    have "(of_int ((2::int) ^ (?a - 1)) :: rat) \<le> of_int n" using bn by (simp only: of_int_le_iff)
    then have n1: "(2::rat) ^ (?a - 1) \<le> of_int n" by simp
    have "(of_int d :: rat) < of_int ((2::int) ^ ?b)" using bd by (simp only: of_int_less_iff)
    then have d1: "(of_int d :: rat) < 2 ^ ?b" by simp
    have "k - 1 = int (?a - 1) - int ?b" using bn by (simp add: k_def)
    then have "(2::rat) powi (k - 1) = 2 powi (int (?a - 1) - int ?b)" by simp
    also have "\<dots> = (2::rat) ^ (?a - 1) / 2 ^ ?b"
      by (simp add: power_int_diff)
    also have "\<dots> < x"
      unfolding x using n1 d1 rd by (intro frac_less2) auto
    finally show ?thesis .
  qed
  have il: "ilog2 x = (if 2 powi k \<le> x then k else k - 1)"
    by (simp add: ilog2_def q k_def Let_def)
  show ?thesis
  proof (cases "2 powi k \<le> x")
    case True
    then show ?thesis using il up by simp
  next
    case False
    then show ?thesis using il lo by simp
  qed
qed

lemma float_round_pos:
  assumes "0 < x"
  shows "float_round x =
           of_int (round_half_even (x / 2 powi (ilog2 x - 52))) * 2 powi (ilog2 x - 52)
         \<and> 2 ^ 52 \<le> x / 2 powi (ilog2 x - 52) \<and> x / 2 powi (ilog2 x - 52) < 2 ^ 53"
proof -
  let ?e = "ilog2 x - 52"
  have p: "(0::rat) < 2 powi ?e" by (simp add: zero_less_power_int)
  note b = ilog2_bounds [OF assms]
  have "(2::rat) powi (ilog2 x) = 2 powi (?e + 52)" by simp
  also have "\<dots> = 2 powi ?e * 2 powi 52" by (rule power_int_add) simp
  finally have lo: "(2::rat) powi (ilog2 x) = 2 ^ 52 * 2 powi ?e" by simp
  have "ilog2 x + 1 = ?e + 53" by simp
  then have "(2::rat) powi (ilog2 x + 1) = 2 powi (?e + 53)" by (simp only:)
  also have "\<dots> = 2 powi ?e * 2 powi 53" by (rule power_int_add) simp
  finally have hi: "(2::rat) powi (ilog2 x + 1) = 2 ^ 53 * 2 powi ?e" by simp
  have 1: "2 ^ 52 \<le> x / 2 powi ?e"
    using b lo p by (simp add: pos_le_divide_eq)
  have 2: "x / 2 powi ?e < 2 ^ 53"
    using b hi p by (simp add: pos_divide_less_eq)
  have 3: "float_round x = of_int (round_half_even (x / 2 powi ?e)) * 2 powi ?e"
    using assms by (simp add: float_round_def Let_def)
  from 1 2 3 show ?thesis by blast
qed

text \<open>The significand of a representable number, scaled to another exponent.\<close>

lemma scaled_significand:
  assumes "0 \<le> m" "m < 2 ^ 53"
  shows "(\<exists>M::int. of_int m * (2::rat) powi i = of_int M) \<or> of_int m * (2::rat) powi i < 2 ^ 52"
proof (cases "0 \<le> i")
  case True
  then have "(2::rat) powi i = of_int (2 ^ nat i)" by (simp add: power_int_def)
  then have "of_int m * (2::rat) powi i = of_int (m * 2 ^ nat i)" by simp
  then show ?thesis by blast
next
  case False
  then have "i \<le> - 1" by simp
  then have "(2::rat) powi i \<le> 2 powi (- 1)" by (intro power_int_increasing) auto
  then have h: "(2::rat) powi i \<le> 1 / 2" by (simp add: power_int_minus)
  have "(of_int m :: rat) < of_int (2 ^ 53)" using assms(2) by (simp only: of_int_less_iff)
  then have m: "(of_int m :: rat) < 2 ^ 53" by simp
  have m0: "(0::rat) \<le> of_int m" using assms(1) by simp
  have "of_int m * (2::rat) powi i \<le> of_int m * (1 / 2)"
    using h m0 by (rule mult_left_mono)
  also have "\<dots> < 2 ^ 53 * (1 / 2)" using m by simp
  finally show ?thesis by simp
qed

lemma float_round_lower:
  assumes x: "0 < x" and m: "0 \<le> m" "m < 2 ^ 53" and le: "of_int m * 2 powi j \<le> x"
  shows "of_int m * 2 powi j \<le> float_round x"
proof -
  let ?e = "ilog2 x - 52"
  let ?p = "(2::rat) powi ?e"
  let ?y = "x / ?p"
  have p: "0 < ?p" by (simp add: zero_less_power_int)
  from float_round_pos [OF x] have
    fl: "float_round x = of_int (round_half_even ?y) * ?p" and y1: "2 ^ 52 \<le> ?y"
    by blast+
  have c: "of_int m * (2::rat) powi j = (of_int m * 2 powi (j - ?e)) * ?p"
    by (simp add: power_int_diff)
  have cy: "of_int m * (2::rat) powi (j - ?e) \<le> ?y"
    using le c p by (simp add: pos_le_divide_eq)
  have fy: "\<lfloor>?y\<rfloor> \<le> round_half_even ?y" using round_half_even_bounds by blast
  have "of_int m * (2::rat) powi (j - ?e) \<le> of_int (round_half_even ?y)"
  proof -
    from scaled_significand [OF m, of "j - ?e"] show ?thesis
    proof
      assume "\<exists>M::int. of_int m * (2::rat) powi (j - ?e) = of_int M"
      then obtain M :: int where M: "of_int m * (2::rat) powi (j - ?e) = of_int M" by blast
      with cy have "M \<le> \<lfloor>?y\<rfloor>" by (simp add: le_floor_iff)
      with fy have "M \<le> round_half_even ?y" by (rule order_trans [rotated])
      then have "(of_int M :: rat) \<le> of_int (round_half_even ?y)" by (simp only: of_int_le_iff)
      with M show ?thesis by simp
    next
      assume s: "of_int m * (2::rat) powi (j - ?e) < 2 ^ 52"
      have "(of_int (2 ^ 52) :: rat) \<le> ?y" using y1 by simp
      then have "(2::int) ^ 52 \<le> \<lfloor>?y\<rfloor>" by (simp only: le_floor_iff)
      with fy have "(2::int) ^ 52 \<le> round_half_even ?y" by (rule order_trans [rotated])
      then have "(of_int (2 ^ 52) :: rat) \<le> of_int (round_half_even ?y)"
        by (simp only: of_int_le_iff)
      with s show ?thesis by simp
    qed
  qed
  then have "(of_int m * 2 powi (j - ?e)) * ?p \<le> of_int (round_half_even ?y) * ?p"
    using p by (simp only: mult_le_cancel_right_pos)
  then show ?thesis unfolding fl c .
qed

lemma float_round_upper:
  assumes x: "0 < x" and m: "0 \<le> m" "m < 2 ^ 53" and le: "x \<le> of_int m * 2 powi j"
  shows "float_round x \<le> of_int m * 2 powi j"
proof -
  let ?e = "ilog2 x - 52"
  let ?p = "(2::rat) powi ?e"
  let ?y = "x / ?p"
  have p: "0 < ?p" by (simp add: zero_less_power_int)
  from float_round_pos [OF x] have
    fl: "float_round x = of_int (round_half_even ?y) * ?p" and y1: "2 ^ 52 \<le> ?y"
    by blast+
  have c: "of_int m * (2::rat) powi j = (of_int m * 2 powi (j - ?e)) * ?p"
    by (simp add: power_int_diff)
  have cy: "?y \<le> of_int m * (2::rat) powi (j - ?e)"
    using le c p by (simp add: pos_divide_le_eq)
  have fy: "round_half_even ?y \<le> \<lceil>?y\<rceil>" using round_half_even_bounds by blast
  have "of_int (round_half_even ?y) \<le> of_int m * (2::rat) powi (j - ?e)"
  proof -
    from scaled_significand [OF m, of "j - ?e"] show ?thesis
    proof
      assume "\<exists>M::int. of_int m * (2::rat) powi (j - ?e) = of_int M"
      then obtain M :: int where M: "of_int m * (2::rat) powi (j - ?e) = of_int M" by blast
      with cy have "\<lceil>?y\<rceil> \<le> M" by (simp add: ceiling_le_iff)
      with fy have "round_half_even ?y \<le> M" by (rule order_trans)
      then have "(of_int (round_half_even ?y) :: rat) \<le> of_int M" by (simp only: of_int_le_iff)
      with M show ?thesis by simp
    next
      assume s: "of_int m * (2::rat) powi (j - ?e) < 2 ^ 52"
      with cy y1 have False by simp
      then show ?thesis ..
    qed
  qed
  then have "of_int (round_half_even ?y) * ?p \<le> (of_int m * 2 powi (j - ?e)) * ?p"
    using p by (simp only: mult_le_cancel_right_pos)
  then show ?thesis unfolding fl c .
qed

lemma float_round_exact:
  assumes "0 < m" "m < 2 ^ 53"
  shows "float_round (of_int m * 2 powi j) = of_int m * 2 powi j"
proof -
  have x: "(0::rat) < of_int m * 2 powi j"
    using assms(1) by (simp add: zero_less_power_int)
  have m0: "0 \<le> m" using assms(1) by simp
  from float_round_lower [OF x m0 assms(2), of j] float_round_upper [OF x m0 assms(2), of j]
  show ?thesis by simp
qed

lemma float_round_exact_int:
  assumes "0 \<le> m" "m < 2 ^ 53"
  shows "float_round (of_int m) = of_int m"
proof (cases "m = 0")
  case True
  then show ?thesis by (simp add: float_round_def)
next
  case False
  with assms have "0 < m" by simp
  from float_round_exact [OF this assms(2), of 0] show ?thesis by simp
qed

lemma round_half_away_nonneg: "0 \<le> x \<Longrightarrow> round_half_away x = \<lfloor>x + 1 / 2\<rfloor>"
  by (simp add: round_half_away_def)

lemma float_round_nonneg:
  assumes "0 \<le> x"
  shows "0 \<le> float_round x"
proof (cases "x = 0")
  case True
  then show ?thesis by (simp add: float_round_def)
next
  case False
  with assms have x: "0 < x" by simp
  from float_round_lower [OF x, of 0 0] show ?thesis using x by simp
qed

text \<open>The float quotient of a small numerator and denominator rounds like the exact one.\<close>

lemma float_quotient_round:
  fixes L S :: int
  assumes L: "0 \<le> L" "L \<le> S" and S: "0 < S" "S \<le> 2 ^ 32"
  shows "\<not> 7 < float_round (of_int (7 * L) / of_int S)
       \<and> py_round (float_round (of_int (7 * L) / of_int S)) = \<lfloor>of_int (7 * L) / of_int S + (1 / 2 :: rat)\<rfloor>"
proof (cases "L = 0")
  case True
  then show ?thesis by (simp add: float_round_def py_round_def)
next
  case False
  with L have Lpos: "0 < L" by simp
  let ?r = "(of_int (7 * L) / of_int S :: rat)"
  let ?c = "float_round ?r"
  define k where "k = \<lfloor>?r + 1 / 2\<rfloor>"
  have s: "(0::rat) < of_int S" using S by simp
  have r0: "0 < ?r" using Lpos s by (simp add: zero_less_divide_iff)
  have "(of_int (7 * L) :: rat) \<le> of_int (7 * S)" using L by simp
  then have r7: "?r \<le> 7" using s by (simp add: pos_divide_le_eq)
  have c7: "?c \<le> 7"
    using float_round_upper [OF r0, of 7 0] r7 by simp
  have c0: "0 \<le> ?c" using r0 by (intro float_round_nonneg) simp
  have k1: "of_int k \<le> ?r + 1 / 2" and k2: "?r + 1 / 2 < of_int k + 1"
    unfolding k_def by linarith+
  have kge: "0 \<le> k" unfolding k_def using r0 by (simp add: zero_le_floor)
  have "?r + 1 / 2 < 8" using r7 by simp
  then have "k < 8" unfolding k_def by (simp add: floor_less_iff)
  then have kle: "k \<le> 7" by simp
  \<comment> \<open>the lower neighbour \<open>k - 1/2\<close> is a float\<close>
  have lower: "of_int k \<le> ?c + 1 / 2"
  proof (cases "k = 0")
    case True
    then show ?thesis using c0 by simp
  next
    case False
    with kge have m0: "0 \<le> 2 * k - 1" by simp
    have m1: "2 * k - 1 < 2 ^ 53" using kle by simp
    have "of_int (2 * k - 1) * 2 powi (- 1) \<le> ?r"
      using k1 by (simp add: power_int_minus field_simps)
    from float_round_lower [OF r0 m0 m1 this]
    show ?thesis by (simp add: power_int_minus field_simps)
  qed
  \<comment> \<open>the exact quotient stays \<open>2 ^ -33\<close> below \<open>k + 1/2\<close>, and that bound is a float\<close>
  have upper: "?c + 1 / 2 < of_int k + 1"
  proof -
    have "?r < of_int k + 1 / 2" using k2 by linarith
    then have "of_int (7 * L) < (of_int k + 1 / 2) * (of_int S :: rat)"
      using s by (simp only: pos_divide_less_eq)
    then have "(of_int (14 * L) :: rat) < of_int ((2 * k + 1) * S)"
      by (simp add: algebra_simps)
    then have "14 * L < (2 * k + 1) * S" by (simp only: of_int_less_iff)
    then have i: "14 * L + 1 \<le> 2 * (k * S) + S" by (simp add: algebra_simps)
    have "14 * L * 2 ^ 32 + S \<le> 2 * (k * S) * 2 ^ 32 + S * 2 ^ 32"
      using i S(2) by simp
    then have "7 * L * 2 ^ 33 \<le> ((2 * k + 1) * 2 ^ 32 - 1) * S"
      by (simp add: algebra_simps)
    then have "(of_int (7 * L * 2 ^ 33) :: rat) \<le> of_int (((2 * k + 1) * 2 ^ 32 - 1) * S)"
      by (simp only: of_int_le_iff)
    then have "(of_int (7 * L) :: rat) * 2 ^ 33 \<le> of_int ((2 * k + 1) * 2 ^ 32 - 1) * of_int S"
      by simp
    then have b: "?r \<le> of_int ((2 * k + 1) * 2 ^ 32 - 1) * 2 powi (- 33)"
      using s by (simp add: power_int_minus field_simps)
    have m0: "0 \<le> (2 * k + 1) * 2 ^ 32 - 1" using kge by simp
    have m1: "(2 * k + 1) * 2 ^ 32 - 1 < 2 ^ 53" using kle by simp
    from float_round_upper [OF r0 m0 m1 b]
    have "?c \<le> of_int ((2 * k + 1) * 2 ^ 32 - 1) / 2 ^ 33"
      by (simp add: power_int_minus field_simps)
    also have "\<dots> < of_int k + 1 / 2" by (simp add: field_simps)
    finally show ?thesis by simp
  qed
  have "\<lfloor>?c + 1 / 2\<rfloor> = k"
    using lower upper by (intro floor_unique) simp_all
  then have "py_round ?c = k" using c0 by (simp add: py_round_def)
  with c7 show ?thesis unfolding k_def by simp
qed

lemma float_quotient_large:
  fixes L S :: int
  assumes L: "S < L" and S: "0 < S" "S \<le> 2 ^ 32"
  shows "7 < float_round (float_round (float_round (of_int L) * 7) / of_int S)"
proof -
  have Lpos: "(0::rat) < of_int L" using L S by simp
  have s: "(0::rat) < of_int S" using S by simp
  have m0: "0 \<le> S + 1" and m1: "S + 1 < 2 ^ 53" using S by simp_all
  have "(of_int (S + 1) :: rat) \<le> of_int L" using L by simp
  then have "of_int (S + 1) * 2 powi 0 \<le> (of_int L :: rat)" by simp
  from float_round_lower [OF Lpos m0 m1 this]
  have a: "of_int (S + 1) \<le> float_round (of_int L)" by simp
  let ?a = "float_round (of_int L) * 7"
  have a7: "of_int (7 * (S + 1)) \<le> ?a" using a by simp
  have apos: "0 < ?a" using a7 s by simp
  have n0: "0 \<le> 7 * (S + 1)" and n1: "7 * (S + 1) < 2 ^ 53" using S by simp_all
  have "of_int (7 * (S + 1)) * 2 powi 0 \<le> ?a" using a7 by simp
  from float_round_lower [OF apos n0 n1 this]
  have p: "of_int (7 * (S + 1)) \<le> float_round ?a" by simp
  let ?q = "float_round ?a / of_int S"
  have "of_int (7 * (S + 1)) / of_int S \<le> ?q"
    using p s by (simp add: divide_right_mono)
  moreover have "(7 + 1 / 2 ^ 30 :: rat) \<le> of_int (7 * (S + 1)) / of_int S"
  proof -
    have "S \<le> 7 * 2 ^ 30" using S by simp
    then have "(of_int S :: rat) \<le> of_int (7 * 2 ^ 30)" by (simp only: of_int_le_iff)
    then have "(of_int S :: rat) \<le> 7 * 2 ^ 30" by simp
    then show ?thesis using s by (simp add: field_simps)
  qed
  ultimately have q: "(7 + 1 / 2 ^ 30 :: rat) \<le> ?q" by (rule order_trans [rotated])
  have "(0::rat) < 7 + 1 / 2 ^ 30" by simp
  then have qpos: "0 < ?q" using q by (rule less_le_trans)
  have "of_int (7 * 2 ^ 30 + 1) * 2 powi (- 30) = (7 + 1 / 2 ^ 30 :: rat)"
    by (simp add: power_int_minus)
  then have "of_int (7 * 2 ^ 30 + 1) * 2 powi (- 30) \<le> ?q"
    using q by (simp only:)
  from float_round_lower [OF qpos _ _ this]
  have "of_int (7 * 2 ^ 30 + 1) * 2 powi (- 30) \<le> float_round ?q" by simp
  then have "(7 + 1 / 2 ^ 30 :: rat) \<le> float_round ?q"
    by (simp add: power_int_minus field_simps)
  then show ?thesis by simp
qed

lemma float_ratio_exact:
  fixes L S :: int
  assumes L0: "0 \<le> L" and S0: "0 < S" and S1: "S \<le> 2 ^ 32"
  shows "(let c = float_div (float_mul (float_of_int L) 7) (float_of_int S)
          in if 7 < c then 8 else py_round c)
       = (let ratio = (of_int L * 7 / of_int S :: rat)
          in if 7 < ratio then 8 else round_half_away ratio)"
proof -
  have S2: "S < 2 ^ 53" using S1 by simp
  have fS: "float_of_int S = of_int S"
    unfolding float_of_int_def using S0 S2 by (intro float_round_exact_int) simp_all
  have s: "(0::rat) < of_int S" using S0 by simp
  have e: "(of_int L * 7 / of_int S :: rat) = of_int (7 * L) / of_int S" by simp
  show ?thesis
  proof (cases "L \<le> S")
    case True
    have "L < 2 ^ 53" using True S2 by linarith
    then have fL: "float_of_int L = of_int L"
      unfolding float_of_int_def using L0 by (intro float_round_exact_int)
    have "7 * L < 2 ^ 53" using True S1 by simp
    then have "float_round (of_int (7 * L)) = of_int (7 * L)"
      using L0 by (intro float_round_exact_int) simp_all
    then have fm: "float_mul (float_of_int L) 7 = of_int (7 * L)"
      by (simp add: float_mul_def fL mult.commute)
    note q = float_quotient_round [OF L0 True S0 S1]
    have "(of_int (7 * L) :: rat) \<le> of_int (7 * S)" using True by simp
    then have r7: "(of_int (7 * L) / of_int S :: rat) \<le> 7"
      using s by (simp add: pos_divide_le_eq)
    have r0: "(0::rat) \<le> of_int (7 * L) / of_int S" using s L0 by simp
    have "round_half_away (of_int (7 * L) / of_int S)
            = \<lfloor>of_int (7 * L) / of_int S + (1 / 2 :: rat)\<rfloor>"
      using r0 by (rule round_half_away_nonneg)
    with q r7 show ?thesis
      unfolding Let_def float_div_def fm fS e by simp
  next
    case False
    then have lt: "S < L" by simp
    note q = float_quotient_large [OF lt S0 S1]
    have "(of_int (7 * S) :: rat) < of_int (7 * L)" using lt by simp
    then have "(7::rat) < of_int (7 * L) / of_int S"
      using s by (simp add: pos_less_divide_eq)
    with q show ?thesis
      unfolding Let_def float_div_def float_mul_def float_of_int_def [of L] fS e by simp
  qed
qed

lemma complexity_exact:
  assumes "SizeOfRawData section \<noteq> 0"
  shows "complexity compress section =
           complexity_spec (length (compress (raw_data section))) (unat (SizeOfRawData section))"
proof -
  define L where "L = int (length (compress (raw_data section)))"
  define S where "S = uint (SizeOfRawData section)"
  have L0: "0 \<le> L" by (simp add: L_def)
  have S0: "0 < S" using assms unfolding S_def by (simp add: word_greater_zero_iff less_le uint_0_iff)
  have "S < 2 ^ 32" unfolding S_def using uint_lt2p [of "SizeOfRawData section"] by simp
  then have S1: "S \<le> 2 ^ 32" by simp
  have a: "complexity compress section =
      (let c = float_div (float_mul (float_of_int L) 7) (float_of_int S)
       in if 7 < c then 8 else py_round c)"
    using assms by (simp add: complexity_def L_def S_def)
  have "(of_nat (length (compress (raw_data section))) :: rat) = of_int L"
    by (simp add: L_def)
  moreover have "(of_nat (unat (SizeOfRawData section)) :: rat) = of_int S"
    by (simp add: S_def)
  ultimately have b: "complexity_spec (length (compress (raw_data section))) (unat (SizeOfRawData section))
      = (let ratio = (of_int L * 7 / of_int S :: rat)
         in if 7 < ratio then 8 else round_half_away ratio)"
    by (simp only: complexity_spec_def)
  show ?thesis
    unfolding a b by (rule float_ratio_exact [OF L0 S0 S1])
qed

lemma complexity_spec_range:
  "0 \<le> complexity_spec l s \<and> complexity_spec l s \<le> 8"
proof -
  let ?r = "(of_nat l * 7 / of_nat s :: rat)"
  have r0: "0 \<le> ?r" by simp
  show ?thesis
  proof (cases "7 < ?r")
    case True
    then show ?thesis by (simp add: complexity_spec_def Let_def)
  next
    case False
    then have "?r + 1 / 2 < 8" by simp
    then have "\<lfloor>?r + 1 / 2\<rfloor> < 8" by (simp only: floor_less_iff of_int_numeral)
    moreover have "0 \<le> \<lfloor>?r + 1 / 2\<rfloor>" using r0 by (simp only: zero_le_floor)
    moreover have "round_half_away ?r = \<lfloor>?r + 1 / 2\<rfloor>"
      using r0 by (rule round_half_away_nonneg)
    ultimately show ?thesis using False by (simp add: complexity_spec_def Let_def)
  qed
qed

text \<open>
  Claim C3. For a section whose \<open>SizeOfRawData\<close> is not 0, the value computed with
  Python's floats is the one the exact quotient gives: with
  \<open>ratio = len(compress(data)) * 7 / SizeOfRawData\<close> it is 8 if \<open>ratio > 7\<close> and
  otherwise \<open>ratio\<close> rounded to the nearest integer, a tie away from zero. The three
  float roundings (of the length, of the product and of the quotient) never move the
  result across 7 or across a half-integer.
\<close>

theorem complexity_rounded_ratio:
  assumes "SizeOfRawData section \<noteq> 0"
  shows "complexity compress section =
           (let ratio = (of_nat (length (compress (raw_data section))) * 7
                          / of_nat (unat (SizeOfRawData section)) :: rat)
            in if 7 < ratio then 8 else round_half_away ratio)"
  using complexity_exact [OF assms, of compress] by (simp only: complexity_spec_def)

theorem complexity_rounded_ratio_witness:
  "SizeOfRawData (scenario_section\<lparr>SizeOfRawData := 196\<rparr>) \<noteq> 0
   \<and> (of_nat (length (fourteen_bytes (raw_data (scenario_section\<lparr>SizeOfRawData := 196\<rparr>)))) * 7
        / of_nat (unat (SizeOfRawData (scenario_section\<lparr>SizeOfRawData := 196\<rparr>))) :: rat) = 1 / 2
   \<and> complexity fourteen_bytes (scenario_section\<lparr>SizeOfRawData := 196\<rparr>) = 1"
proof -
  let ?s = "scenario_section\<lparr>SizeOfRawData := 196\<rparr>"
  have h: "SizeOfRawData ?s \<noteq> 0" by simp
  have l: "length (fourteen_bytes (raw_data ?s)) = 14" by (simp add: fourteen_bytes_def)
  have u: "unat (SizeOfRawData ?s) = 196" by simp
  from complexity_rounded_ratio [OF h, of fourteen_bytes]
  have "complexity fourteen_bytes ?s = 1"
    unfolding l u by (simp add: round_half_away_def)
  with h l u show ?thesis by simp
qed

text \<open>
  Claim C4. The complexity of every section is an integer between 0 and 8, and it is 0
  when \<open>SizeOfRawData\<close> is 0; in that case the result holds for every \<open>compress\<close>,
  which is not consulted.
\<close>

theorem complexity_range:
  "0 \<le> complexity compress section \<and> complexity compress section \<le> 8
   \<and> (SizeOfRawData section = 0 \<longrightarrow> complexity compress section = 0)"
proof (cases "SizeOfRawData section = 0")
  case True
  then show ?thesis by (simp add: complexity_def)
next
  case False
  from complexity_exact [OF False, of compress] complexity_spec_range
  show ?thesis using False by simp
qed

theorem complexity_range_witness:
  "SizeOfRawData (scenario_section\<lparr>SizeOfRawData := 0\<rparr>) = 0
   \<and> complexity fourteen_bytes (scenario_section\<lparr>SizeOfRawData := 0\<rparr>) = 0
   \<and> 0 \<le> complexity fourteen_bytes scenario_section
   \<and> complexity fourteen_bytes scenario_section \<le> 8"
proof -
  have h: "SizeOfRawData (scenario_section\<lparr>SizeOfRawData := 0\<rparr>) = 0" by simp
  from complexity_range [of fourteen_bytes "scenario_section\<lparr>SizeOfRawData := 0\<rparr>"] h
  have "complexity fourteen_bytes (scenario_section\<lparr>SizeOfRawData := 0\<rparr>) = 0" by blast
  with h complexity_range [of fourteen_bytes scenario_section] show ?thesis by blast
qed

section \<open>The directory bitmap\<close>

lemma and_then_simps [simp]:
  "and_then (Inl e) f = Inl e"
  "and_then (Inr v) f = f v"
  by (simp_all add: and_then_def)

lemma dirs_loop_bits:
  assumes "\<forall>idx\<in>set idxs. idx < length dirs"
  shows "\<exists>r. dirs_loop dirs idxs st = Inr r \<and>
           (\<forall>i. bit r i \<longleftrightarrow> bit st i \<or> (i \<in> set idxs \<and> dir_VirtualAddress (dirs ! i) \<noteq> 0))"
  using assms
proof (induction idxs arbitrary: st)
  case Nil
  then show ?case by simp
next
  case (Cons idx rest)
  let ?st = "if dir_VirtualAddress (dirs ! idx) \<noteq> 0 then st OR push_bit idx 1 else st"
  from Cons.prems have rest: "\<forall>j\<in>set rest. j < length dirs" and idx: "idx < length dirs"
    by simp_all
  from Cons.IH [OF rest, of ?st] obtain r where
    r: "dirs_loop dirs rest ?st = Inr r"
       "\<forall>i. bit r i \<longleftrightarrow> bit ?st i \<or> (i \<in> set rest \<and> dir_VirtualAddress (dirs ! i) \<noteq> 0)"
    by blast
  have st: "\<And>i. bit ?st i \<longleftrightarrow> bit st i \<or> (i = idx \<and> dir_VirtualAddress (dirs ! idx) \<noteq> 0)"
    by (auto simp add: bit_simps)
  have "dirs_loop dirs (idx # rest) st = Inr r" using idx r(1) by simp
  moreover have "\<forall>i. bit r i \<longleftrightarrow>
      bit st i \<or> (i \<in> set (idx # rest) \<and> dir_VirtualAddress (dirs ! i) \<noteq> 0)"
    using r(2) st by auto
  ultimately show ?case by blast
qed

lemma dirs_loop_IndexError:
  assumes "\<not> (\<forall>idx\<in>set idxs. idx < length dirs)"
  shows "dirs_loop dirs idxs st = Inl IndexError"
  using assms by (induction idxs arbitrary: st) auto

lemma dirs_mask_bits: "bit dirs_mask i \<longleftrightarrow> i < 15 \<and> i \<noteq> 7 \<and> i \<noteq> 8"
proof -
  have e: "dirs_mask = mask 7 OR push_bit 9 (mask 6)"
    by (simp add: dirs_mask_def mask_eq_exp_minus_1 push_bit_eq_mult)
  show ?thesis unfolding e by (auto simp add: bit_simps)
qed

lemma dirs_status_cases:
  "dirs_status oh =
     (if min (unat (NumberOfRvaAndSizes oh)) 16 \<le> length (DATA_DIRECTORY oh)
      then dirs_status oh else Inl IndexError)"
proof (cases "min (unat (NumberOfRvaAndSizes oh)) 16 \<le> length (DATA_DIRECTORY oh)")
  case True
  then show ?thesis by simp
next
  case False
  then have "\<not> (\<forall>idx\<in>set [0..<min (unat (NumberOfRvaAndSizes oh)) 16]. idx < length (DATA_DIRECTORY oh))"
    by (auto simp add: not_le intro!: bexI [of _ "length (DATA_DIRECTORY oh)"])
  from dirs_loop_IndexError [OF this] False show ?thesis by (simp add: dirs_status_def)
qed

lemma dirs_status_bits:
  assumes "min (unat (NumberOfRvaAndSizes oh)) 16 \<le> length (DATA_DIRECTORY oh)"
  shows "\<exists>status. dirs_status oh = Inr status \<and>
           (\<forall>i. bit status i \<longleftrightarrow>
              i < min (unat (NumberOfRvaAndSizes oh)) 16
              \<and> dir_VirtualAddress (DATA_DIRECTORY oh ! i) \<noteq> 0)"
proof -
  have "\<forall>idx\<in>set [0..<min (unat (NumberOfRvaAndSizes oh)) 16]. idx < length (DATA_DIRECTORY oh)"
    using assms by auto
  from dirs_loop_bits [OF this, of 0] show ?thesis
    by (simp add: dirs_status_def)
qed

lemma masked_bitmap_range:
  fixes status :: int
  shows "0 \<le> status AND dirs_mask \<and> status AND dirs_mask < 2 ^ 16"
proof -
  have m: "(0::int) \<le> dirs_mask" by (simp add: dirs_mask_def)
  have "status AND dirs_mask \<le> dirs_mask" using m by (rule AND_upper2)
  moreover have "0 \<le> status AND dirs_mask" using m by simp
  ultimately show ?thesis by (simp add: dirs_mask_def)
qed

lemma masked_status_bits:
  assumes s: "\<forall>i. bit (status::int) i \<longleftrightarrow> i < min (unat (NumberOfRvaAndSizes oh)) 16
              \<and> dir_VirtualAddress (DATA_DIRECTORY oh ! i) \<noteq> 0"
  shows "\<forall>i. bit (status AND dirs_mask) i \<longleftrightarrow>
              i < min (unat (NumberOfRvaAndSizes oh)) 16 \<and> i \<noteq> 7 \<and> i \<noteq> 8 \<and> i \<noteq> 15
              \<and> dir_VirtualAddress (DATA_DIRECTORY oh ! i) \<noteq> 0"
proof
  fix i
  define n where "n = min (unat (NumberOfRvaAndSizes oh)) 16"
  have n: "n \<le> 16" by (simp add: n_def)
  have a: "(i < n \<and> i < 15) \<longleftrightarrow> (i < n \<and> i \<noteq> 15)" using n by auto
  have "bit (status AND dirs_mask) i \<longleftrightarrow> bit status i \<and> bit dirs_mask i"
    by (simp only: bit_and_iff)
  also have "\<dots> \<longleftrightarrow> (i < n \<and> dir_VirtualAddress (DATA_DIRECTORY oh ! i) \<noteq> 0)
                     \<and> (i < 15 \<and> i \<noteq> 7 \<and> i \<noteq> 8)"
    using s by (simp only: dirs_mask_bits n_def)
  also have "\<dots> \<longleftrightarrow> i < n \<and> i \<noteq> 7 \<and> i \<noteq> 8 \<and> i \<noteq> 15
              \<and> dir_VirtualAddress (DATA_DIRECTORY oh ! i) \<noteq> 0"
    using a by blast
  finally show "bit (status AND dirs_mask) i \<longleftrightarrow>
              i < min (unat (NumberOfRvaAndSizes oh)) 16 \<and> i \<noteq> 7 \<and> i \<noteq> 8 \<and> i \<noteq> 15
              \<and> dir_VirtualAddress (DATA_DIRECTORY oh ! i) \<noteq> 0"
    unfolding n_def .
qed

lemma dirs_status_masked_cong:
  assumes len: "length (DATA_DIRECTORY oh') = length (DATA_DIRECTORY oh)"
    and n: "NumberOfRvaAndSizes oh' = NumberOfRvaAndSizes oh"
    and same: "\<forall>i<length (DATA_DIRECTORY oh). i \<noteq> 7 \<and> i \<noteq> 8 \<and> i \<noteq> 15 \<longrightarrow>
                 (dir_VirtualAddress (DATA_DIRECTORY oh' ! i) = 0)
                   = (dir_VirtualAddress (DATA_DIRECTORY oh ! i) = 0)"
  shows "(dirs_status oh' = Inl IndexError \<and> dirs_status oh = Inl IndexError)
       \<or> (\<exists>s s'. dirs_status oh' = Inr s' \<and> dirs_status oh = Inr s
              \<and> s' AND dirs_mask = s AND dirs_mask)"
proof (cases "min (unat (NumberOfRvaAndSizes oh)) 16 \<le> length (DATA_DIRECTORY oh)")
  case False
  then have "dirs_status oh = Inl IndexError" "dirs_status oh' = Inl IndexError"
    using dirs_status_cases [of oh] dirs_status_cases [of oh'] len n by simp_all
  then show ?thesis by simp
next
  case True
  then have True': "min (unat (NumberOfRvaAndSizes oh')) 16 \<le> length (DATA_DIRECTORY oh')"
    using len n by simp
  from dirs_status_bits [OF True] obtain s where
    s: "dirs_status oh = Inr s"
       "\<forall>i. bit s i \<longleftrightarrow> i < min (unat (NumberOfRvaAndSizes oh)) 16
              \<and> dir_VirtualAddress (DATA_DIRECTORY oh ! i) \<noteq> 0"
    by blast
  from dirs_status_bits [OF True'] obtain s' where
    s': "dirs_status oh' = Inr s'"
       "\<forall>i. bit s' i \<longleftrightarrow> i < min (unat (NumberOfRvaAndSizes oh')) 16
              \<and> dir_VirtualAddress (DATA_DIRECTORY oh' ! i) \<noteq> 0"
    by blast
  note b = masked_status_bits [OF s(2)] and b' = masked_status_bits [OF s'(2)]
  have "s' AND dirs_mask = s AND dirs_mask"
  proof (rule bit_eqI)
    fix i
    show "bit (s' AND dirs_mask) i \<longleftrightarrow> bit (s AND dirs_mask) i"
    proof (cases "i < min (unat (NumberOfRvaAndSizes oh)) 16 \<and> i \<noteq> 7 \<and> i \<noteq> 8 \<and> i \<noteq> 15")
      case False
      then show ?thesis using b b' n by auto
    next
      case i: True
      then have "i < min (unat (NumberOfRvaAndSizes oh)) 16" by simp
      with True have "i < length (DATA_DIRECTORY oh)" by (rule less_le_trans [rotated])
      with same i have "(dir_VirtualAddress (DATA_DIRECTORY oh' ! i) = 0)
                   = (dir_VirtualAddress (DATA_DIRECTORY oh ! i) = 0)" by blast
      then show ?thesis using b b' n i by simp
    qed
  qed
  with s(1) s'(1) show ?thesis by blast
qed

lemma masked_dirs_header:
  "NumberOfRvaAndSizes (OPTIONAL_HEADER masked_dirs_exe) = 16"
  "DATA_DIRECTORY (OPTIONAL_HEADER masked_dirs_exe)
     = (replicate 16 absent_dir)[7 := present_dir, 8 := present_dir, 15 := present_dir]"
  "FILE_HEADER masked_dirs_exe = FILE_HEADER sixteen_dirs_exe"
  "sections masked_dirs_exe = sections sixteen_dirs_exe"
  "OPTIONAL_HEADER masked_dirs_exe
     = (OPTIONAL_HEADER sixteen_dirs_exe)
         \<lparr>DATA_DIRECTORY :=
            (replicate 16 absent_dir)[7 := present_dir, 8 := present_dir, 15 := present_dir]\<rparr>"
  "DATA_DIRECTORY (OPTIONAL_HEADER sixteen_dirs_exe) = replicate 16 absent_dir"
  by (simp_all add: masked_dirs_exe_def sixteen_dirs_exe_def)

text \<open>
  The status the loop returns, masked: which bits are set, and that the value fits the
  16-bit field.
\<close>

lemma dirs_status_masked_bits:
  assumes "min (unat (NumberOfRvaAndSizes oh)) 16 \<le> length (DATA_DIRECTORY oh)"
  shows "\<exists>status. dirs_status oh = Inr status
      \<and> (\<forall>i. bit (status AND dirs_mask) i \<longleftrightarrow>
              i < min (unat (NumberOfRvaAndSizes oh)) 16 \<and> i \<noteq> 7 \<and> i \<noteq> 8 \<and> i \<noteq> 15
              \<and> dir_VirtualAddress (DATA_DIRECTORY oh ! i) \<noteq> 0)
      \<and> \<not> bit (status AND dirs_mask) 7 \<and> \<not> bit (status AND dirs_mask) 8
      \<and> \<not> bit (status AND dirs_mask) 15
      \<and> (\<forall>i. 16 \<le> i \<longrightarrow> \<not> bit (status AND dirs_mask) i)
      \<and> (NumberOfRvaAndSizes oh = 0 \<longrightarrow> status AND dirs_mask = 0)
      \<and> pack Fmt_H (status AND dirs_mask) = Inr (be_bytes 2 (status AND dirs_mask))"
proof -
  from dirs_status_bits [OF assms] obtain status where
    s: "dirs_status oh = Inr status"
       "\<forall>i. bit status i \<longleftrightarrow> i < min (unat (NumberOfRvaAndSizes oh)) 16
              \<and> dir_VirtualAddress (DATA_DIRECTORY oh ! i) \<noteq> 0"
    by blast
  let ?b = "status AND dirs_mask"
  have b: "\<forall>i. bit ?b i \<longleftrightarrow>
              i < min (unat (NumberOfRvaAndSizes oh)) 16 \<and> i \<noteq> 7 \<and> i \<noteq> 8 \<and> i \<noteq> 15
              \<and> dir_VirtualAddress (DATA_DIRECTORY oh ! i) \<noteq> 0"
    using s(2) by (rule masked_status_bits)
  have z: "NumberOfRvaAndSizes oh = 0 \<longrightarrow> ?b = 0"
  proof
    assume "NumberOfRvaAndSizes oh = 0"
    then have "\<forall>i. \<not> bit ?b i" using b by simp
    then show "?b = 0" by (intro bit_eqI) simp
  qed
  have p: "pack Fmt_H ?b = Inr (be_bytes 2 ?b)"
    using masked_bitmap_range [of status] by (simp add: pack_def)
  have b7: "\<not> bit ?b 7" and b8: "\<not> bit ?b 8" and b15: "\<not> bit ?b 15"
    using b by simp_all
  have hi: "\<forall>i. 16 \<le> i \<longrightarrow> \<not> bit ?b i" using b by simp
  show ?thesis
    by (intro exI [of _ status] conjI) (fact s(1) b b7 b8 b15 hi z p)+
qed

section \<open>The hashed byte string\<close>

lemma pack_in_range:
  "0 \<le> v \<Longrightarrow> v < 2 ^ (8 * calcsize fmt) \<Longrightarrow> pack fmt v = Inr (be_bytes (calcsize fmt) v)"
  by (simp add: pack_def)

lemma pack_out_of_range:
  "2 ^ (8 * calcsize fmt) \<le> v \<Longrightarrow> pack fmt v = Inl StructError"
  by (simp add: pack_def)

lemma align_up_4096: "align_up n 4096 = Inr (align_up_value n 4096)"
  using align_up_power [of n 12] by (simp add: align_up_value_def)

lemma align_up_512: "align_up n 512 = Inr (align_up_value n 512)"
  using align_up_power [of n 9] by (simp add: align_up_value_def)

lemma align_up_256: "align_up n 256 = Inr (align_up_value n 256)"
  using align_up_power [of n 8] by (simp add: align_up_value_def)

lemma align_up_value_nonneg: "0 \<le> n \<Longrightarrow> 0 < b \<Longrightarrow> 0 \<le> align_up_value n b"
  by (simp add: align_up_value_def pos_imp_zdiv_nonneg_iff)

lemma align_down_p2_le: "0 \<le> n \<Longrightarrow> 0 \<le> align_down_p2 n \<and> align_down_p2 n \<le> n"
proof (cases "n = 0")
  case True
  then show ?thesis by (simp add: align_down_p2_def)
next
  case False
  assume "0 \<le> n"
  with False have "0 < n" by simp
  from align_down_p2_bounds [OF this] show ?thesis by auto
qed

lemma pack_H_word: "pack Fmt_H (uint (w :: 16 word)) = Inr (be_bytes 2 (uint w))"
  using uint_lt2p [of w] by (simp add: pack_def)

lemma pack_I_align_down: "pack Fmt_I (align_down_p2 (uint (w :: 32 word))) = Inr (be_bytes 4 (align_down_p2 (uint w)))"
proof -
  have "0 \<le> uint w" by simp
  from align_down_p2_le [OF this] uint_lt2p [of w]
  have "0 \<le> align_down_p2 (uint w)" "align_down_p2 (uint w) < 2 ^ 32" by simp_all
  then show ?thesis by (simp add: pack_def)
qed

lemma pack_B_top_byte:
  "pack Fmt_B (drop_bit 24 (uint (w :: 32 word))) = Inr (be_bytes 1 (uint w div 2 ^ 24))"
proof -
  have "uint w < 2 ^ 32" using uint_lt2p [of w] by simp
  then have "uint w div 2 ^ 24 < 2 ^ 8" by simp
  moreover have "0 \<le> uint w div 2 ^ 24" by (simp add: pos_imp_zdiv_nonneg_iff)
  ultimately show ?thesis by (simp add: pack_def drop_bit_eq_div)
qed

lemma complexity_expected: "complexity compress section = expected_complexity compress section"
proof (cases "SizeOfRawData section = 0")
  case True
  then show ?thesis by (simp add: complexity_def expected_complexity_def)
next
  case False
  from complexity_exact [OF False, of compress] False
  show ?thesis by (simp add: expected_complexity_def)
qed

lemma complexity_bounds: "0 \<le> complexity compress section \<and> complexity compress section \<le> 8"
proof (cases "SizeOfRawData section = 0")
  case True
  then show ?thesis by (simp add: complexity_def)
next
  case False
  from complexity_exact [OF False, of compress] complexity_spec_range
  show ?thesis by simp
qed

lemma pack_B_complexity:
  "pack Fmt_B (complexity compress section) = Inr (be_bytes 1 (expected_complexity compress section))"
proof -
  from complexity_bounds [of compress "section"]
  have "0 \<le> complexity compress section" "complexity compress section < 2 ^ 8" by simp_all
  then show ?thesis by (simp add: pack_def complexity_expected)
qed

text \<open>An integer whose bits are known is the Horner sum of those bits.\<close>

lemma bits_horner_sum:
  fixes b :: int
  assumes bits: "\<forall>i. bit b i \<longleftrightarrow> P i" and range: "0 \<le> b" "b < 2 ^ n"
  shows "b = horner_sum of_bool 2 (map P [0..<n])"
proof -
  have e: "map P [0..<n] = map (bit b) [0..<n]" using bits by simp
  have "horner_sum of_bool 2 (map P [0..<n]) = (take_bit n b :: int)"
    unfolding e by (rule horner_sum_bit_eq_take_bit)
  also have "take_bit n b = b" using range by (simp add: take_bit_int_eq_self)
  finally show ?thesis by simp
qed

lemma dirs_status_expected:
  assumes "min (unat (NumberOfRvaAndSizes oh)) 16 \<le> length (DATA_DIRECTORY oh)"
  shows "\<exists>status. dirs_status oh = Inr status \<and> status AND dirs_mask = expected_bitmap oh"
proof -
  from dirs_status_bits [OF assms] obtain status where
    s: "dirs_status oh = Inr status"
       "\<forall>i. bit status i \<longleftrightarrow> i < min (unat (NumberOfRvaAndSizes oh)) 16
              \<and> dir_VirtualAddress (DATA_DIRECTORY oh ! i) \<noteq> 0"
    by blast
  note b = masked_status_bits [OF s(2)]
  from bits_horner_sum [OF b, of 16] masked_bitmap_range [of status]
  have "status AND dirs_mask = expected_bitmap oh"
    by (simp only: expected_bitmap_def)
  with s(1) show ?thesis by blast
qed

lemma header_data_fit_list:
  assumes stack: "align_up_value (uint (SizeOfStackCommit (OPTIONAL_HEADER exe))) 4096 < 2 ^ 64"
    and heap: "align_up_value (uint (SizeOfHeapCommit (OPTIONAL_HEADER exe))) 4096 < 2 ^ 64"
    and dirs: "min (unat (NumberOfRvaAndSizes (OPTIONAL_HEADER exe))) 16
                 \<le> length (DATA_DIRECTORY (OPTIONAL_HEADER exe))"
  shows "header_data exe =
      Inr [be_bytes 2 (uint (Characteristics (FILE_HEADER exe))),
           be_bytes 2 (uint (Subsystem (OPTIONAL_HEADER exe))),
           be_bytes 4 (align_down_p2 (uint (SectionAlignment (OPTIONAL_HEADER exe)))),
           be_bytes 4 (align_down_p2 (uint (FileAlignment (OPTIONAL_HEADER exe)))),
           be_bytes 8 (align_up_value (uint (SizeOfStackCommit (OPTIONAL_HEADER exe))) 4096),
           be_bytes 8 (align_up_value (uint (SizeOfHeapCommit (OPTIONAL_HEADER exe))) 4096),
           be_bytes 2 (expected_bitmap (OPTIONAL_HEADER exe))]"
proof -
  let ?oh = "OPTIONAL_HEADER exe"
  have s0: "0 \<le> align_up_value (uint (SizeOfStackCommit ?oh)) 4096"
    by (rule align_up_value_nonneg) simp_all
  have h0: "0 \<le> align_up_value (uint (SizeOfHeapCommit ?oh)) 4096"
    by (rule align_up_value_nonneg) simp_all
  have ps: "pack Fmt_Q (align_up_value (uint (SizeOfStackCommit ?oh)) 4096)
              = Inr (be_bytes 8 (align_up_value (uint (SizeOfStackCommit ?oh)) 4096))"
    using s0 stack by (simp add: pack_def)
  have ph: "pack Fmt_Q (align_up_value (uint (SizeOfHeapCommit ?oh)) 4096)
              = Inr (be_bytes 8 (align_up_value (uint (SizeOfHeapCommit ?oh)) 4096))"
    using h0 heap by (simp add: pack_def)
  from dirs_status_expected [OF dirs] obtain status where
    st: "dirs_status ?oh = Inr status" "status AND dirs_mask = expected_bitmap ?oh" by blast
  have pb: "pack Fmt_H (expected_bitmap ?oh) = Inr (be_bytes 2 (expected_bitmap ?oh))"
    using masked_bitmap_range [of status] st(2) by (simp add: pack_def)
  show ?thesis
    unfolding header_data_def
    by (simp only: pack_H_word pack_I_align_down align_up_4096 ps ph st pb and_then_simps)
qed

lemma header_data_fit:
  assumes stack: "align_up_value (uint (SizeOfStackCommit (OPTIONAL_HEADER exe))) 4096 < 2 ^ 64"
    and heap: "align_up_value (uint (SizeOfHeapCommit (OPTIONAL_HEADER exe))) 4096 < 2 ^ 64"
    and dirs: "min (unat (NumberOfRvaAndSizes (OPTIONAL_HEADER exe))) 16
                 \<le> length (DATA_DIRECTORY (OPTIONAL_HEADER exe))"
  shows "\<exists>data. header_data exe = Inr data \<and> concat data = header_bytes exe"
  using header_data_fit_list [OF stack heap dirs] by (simp add: header_bytes_def)

lemma header_data_unfit:
  assumes "\<not> (align_up_value (uint (SizeOfStackCommit (OPTIONAL_HEADER exe))) 4096 < 2 ^ 64
    \<and> align_up_value (uint (SizeOfHeapCommit (OPTIONAL_HEADER exe))) 4096 < 2 ^ 64
    \<and> min (unat (NumberOfRvaAndSizes (OPTIONAL_HEADER exe))) 16
                 \<le> length (DATA_DIRECTORY (OPTIONAL_HEADER exe)))"
  shows "header_data exe = Inl StructError \<or> header_data exe = Inl IndexError"
proof -
  let ?oh = "OPTIONAL_HEADER exe"
  let ?s = "align_up_value (uint (SizeOfStackCommit ?oh)) 4096"
  let ?h = "align_up_value (uint (SizeOfHeapCommit ?oh)) 4096"
  have unf: "header_data exe =
     and_then (pack Fmt_Q ?s) (\<lambda>d5.
     and_then (pack Fmt_Q ?h) (\<lambda>d6.
     and_then (dirs_status ?oh) (\<lambda>status.
     and_then (pack Fmt_H (status AND dirs_mask)) (\<lambda>d7.
     Inr [be_bytes 2 (uint (Characteristics (FILE_HEADER exe))),
           be_bytes 2 (uint (Subsystem ?oh)),
           be_bytes 4 (align_down_p2 (uint (SectionAlignment ?oh))),
           be_bytes 4 (align_down_p2 (uint (FileAlignment ?oh))), d5, d6, d7]))))"
    unfolding header_data_def
    by (simp only: pack_H_word pack_I_align_down align_up_4096 and_then_simps)
  show ?thesis
  proof (cases "?s < 2 ^ 64")
    case False
    then have "pack Fmt_Q ?s = Inl StructError" by (simp add: pack_def)
    then show ?thesis unfolding unf by simp
  next
    case s: True
    have "0 \<le> ?s" by (rule align_up_value_nonneg) simp_all
    with s have ps: "pack Fmt_Q ?s = Inr (be_bytes 8 ?s)" by (simp add: pack_def)
    show ?thesis
    proof (cases "?h < 2 ^ 64")
      case False
      then have "pack Fmt_Q ?h = Inl StructError" by (simp add: pack_def)
      then show ?thesis unfolding unf ps by simp
    next
      case h: True
      have "0 \<le> ?h" by (rule align_up_value_nonneg) simp_all
      with h have ph: "pack Fmt_Q ?h = Inr (be_bytes 8 ?h)" by (simp add: pack_def)
      from assms s h have
        "\<not> min (unat (NumberOfRvaAndSizes ?oh)) 16 \<le> length (DATA_DIRECTORY ?oh)" by simp
      then have "dirs_status ?oh = Inl IndexError"
        using dirs_status_cases [of ?oh] by simp
      then show ?thesis unfolding unf ps ph by simp
    qed
  qed
qed

lemma header_data_produced:
  assumes "header_data exe = Inr data"
  shows "align_up_value (uint (SizeOfStackCommit (OPTIONAL_HEADER exe))) 4096 < 2 ^ 64
    \<and> align_up_value (uint (SizeOfHeapCommit (OPTIONAL_HEADER exe))) 4096 < 2 ^ 64
    \<and> min (unat (NumberOfRvaAndSizes (OPTIONAL_HEADER exe))) 16
                 \<le> length (DATA_DIRECTORY (OPTIONAL_HEADER exe))"
proof (rule ccontr)
  assume "\<not> ?thesis"
  from header_data_unfit [OF this] assms show False by auto
qed

text \<open>
  Claim C2. The seventh string \<open>header_data\<close> appends (line 81) is the 16-bit
  big-endian serialization of the status of the loop of lines 77 to 80, ANDed with
  \<^verbatim>\<open>0b0111111001111111\<close>. Read back as a number, its bit \<open>i\<close> is set exactly when \<open>i\<close> is
  below \<open>min NumberOfRvaAndSizes 16\<close>, is none of 7, 8 and 15, and directory entry \<open>i\<close>
  has a nonzero virtual address. So bits 7, 8 and 15 of the serialized bitmap are always
  0, no index from 16 on contributes, and the bitmap is 0 when \<open>NumberOfRvaAndSizes\<close>
  is 0. This holds for every header the function produces, and it produces one exactly
  when lines 67 to 81 do not raise: the two rounded commit sizes fit 64 bits and the
  directory list holds the entries the loop indexes.
\<close>

theorem header_data_bitmap:
  "((\<exists>data. header_data exe = Inr data) \<longleftrightarrow>
      align_up_value (uint (SizeOfStackCommit (OPTIONAL_HEADER exe))) 4096 < 2 ^ 64
      \<and> align_up_value (uint (SizeOfHeapCommit (OPTIONAL_HEADER exe))) 4096 < 2 ^ 64
      \<and> min (unat (NumberOfRvaAndSizes (OPTIONAL_HEADER exe))) 16
            \<le> length (DATA_DIRECTORY (OPTIONAL_HEADER exe)))
   \<and> (\<forall>data. header_data exe = Inr data \<longrightarrow>
        length data = 7 \<and> length (data ! 6) = 2
        \<and> (\<exists>status. dirs_status (OPTIONAL_HEADER exe) = Inr status
              \<and> be_value (data ! 6) = status AND dirs_mask
              \<and> pack Fmt_H (status AND dirs_mask) = Inr (data ! 6))
        \<and> (\<forall>i. bit (be_value (data ! 6)) i \<longleftrightarrow>
              i < min (unat (NumberOfRvaAndSizes (OPTIONAL_HEADER exe))) 16
              \<and> i \<noteq> 7 \<and> i \<noteq> 8 \<and> i \<noteq> 15
              \<and> dir_VirtualAddress (DATA_DIRECTORY (OPTIONAL_HEADER exe) ! i) \<noteq> 0)
        \<and> \<not> bit (be_value (data ! 6)) 7 \<and> \<not> bit (be_value (data ! 6)) 8
        \<and> \<not> bit (be_value (data ! 6)) 15
        \<and> (\<forall>i. 16 \<le> i \<longrightarrow> \<not> bit (be_value (data ! 6)) i)
        \<and> (NumberOfRvaAndSizes (OPTIONAL_HEADER exe) = 0 \<longrightarrow> be_value (data ! 6) = 0))"
proof -
  let ?oh = "OPTIONAL_HEADER exe"
  have produces: "(\<exists>data. header_data exe = Inr data) \<longleftrightarrow>
      align_up_value (uint (SizeOfStackCommit ?oh)) 4096 < 2 ^ 64
      \<and> align_up_value (uint (SizeOfHeapCommit ?oh)) 4096 < 2 ^ 64
      \<and> min (unat (NumberOfRvaAndSizes ?oh)) 16 \<le> length (DATA_DIRECTORY ?oh)"
  proof
    assume "\<exists>data. header_data exe = Inr data"
    then obtain data where "header_data exe = Inr data" ..
    then show "align_up_value (uint (SizeOfStackCommit ?oh)) 4096 < 2 ^ 64
      \<and> align_up_value (uint (SizeOfHeapCommit ?oh)) 4096 < 2 ^ 64
      \<and> min (unat (NumberOfRvaAndSizes ?oh)) 16 \<le> length (DATA_DIRECTORY ?oh)"
      by (rule header_data_produced)
  next
    assume "align_up_value (uint (SizeOfStackCommit ?oh)) 4096 < 2 ^ 64
      \<and> align_up_value (uint (SizeOfHeapCommit ?oh)) 4096 < 2 ^ 64
      \<and> min (unat (NumberOfRvaAndSizes ?oh)) 16 \<le> length (DATA_DIRECTORY ?oh)"
    then show "\<exists>data. header_data exe = Inr data"
      using header_data_fit_list [of exe] by simp
  qed
  have seventh_string: "\<forall>data. header_data exe = Inr data \<longrightarrow>
        length data = 7 \<and> length (data ! 6) = 2
        \<and> (\<exists>status. dirs_status ?oh = Inr status
              \<and> be_value (data ! 6) = status AND dirs_mask
              \<and> pack Fmt_H (status AND dirs_mask) = Inr (data ! 6))
        \<and> (\<forall>i. bit (be_value (data ! 6)) i \<longleftrightarrow>
              i < min (unat (NumberOfRvaAndSizes ?oh)) 16
              \<and> i \<noteq> 7 \<and> i \<noteq> 8 \<and> i \<noteq> 15
              \<and> dir_VirtualAddress (DATA_DIRECTORY ?oh ! i) \<noteq> 0)
        \<and> \<not> bit (be_value (data ! 6)) 7 \<and> \<not> bit (be_value (data ! 6)) 8
        \<and> \<not> bit (be_value (data ! 6)) 15
        \<and> (\<forall>i. 16 \<le> i \<longrightarrow> \<not> bit (be_value (data ! 6)) i)
        \<and> (NumberOfRvaAndSizes ?oh = 0 \<longrightarrow> be_value (data ! 6) = 0)"
  proof (intro allI impI)
    fix data
    assume produced: "header_data exe = Inr data"
    have fit: "align_up_value (uint (SizeOfStackCommit ?oh)) 4096 < 2 ^ 64"
        "align_up_value (uint (SizeOfHeapCommit ?oh)) 4096 < 2 ^ 64"
        "min (unat (NumberOfRvaAndSizes ?oh)) 16 \<le> length (DATA_DIRECTORY ?oh)"
      using header_data_produced [OF produced] by simp_all
    from dirs_status_masked_bits [OF fit(3)] obtain status where
      st: "dirs_status ?oh = Inr status"
      and bits: "\<forall>i. bit (status AND dirs_mask) i \<longleftrightarrow>
                i < min (unat (NumberOfRvaAndSizes ?oh)) 16 \<and> i \<noteq> 7 \<and> i \<noteq> 8 \<and> i \<noteq> 15
                \<and> dir_VirtualAddress (DATA_DIRECTORY ?oh ! i) \<noteq> 0"
      and b7: "\<not> bit (status AND dirs_mask) 7" and b8: "\<not> bit (status AND dirs_mask) 8"
      and b15: "\<not> bit (status AND dirs_mask) 15"
      and high: "\<forall>i. 16 \<le> i \<longrightarrow> \<not> bit (status AND dirs_mask) i"
      and zero: "NumberOfRvaAndSizes ?oh = 0 \<longrightarrow> status AND dirs_mask = 0"
      and packed: "pack Fmt_H (status AND dirs_mask) = Inr (be_bytes 2 (status AND dirs_mask))"
      by blast
    from dirs_status_expected [OF fit(3)] st
    have e: "expected_bitmap ?oh = status AND dirs_mask" by auto
    from header_data_fit_list [OF fit] produced
    have seventh: "data ! 6 = be_bytes 2 (status AND dirs_mask)" and len: "length data = 7"
      by (auto simp add: e)
    have "status AND dirs_mask < 2 ^ (8 * 2)"
      using masked_bitmap_range [of status] by simp
    with masked_bitmap_range [of status]
    have v: "be_value (data ! 6) = status AND dirs_mask"
      unfolding seventh by (intro be_value_be_bytes) simp_all
    have len2: "length (data ! 6) = 2" unfolding seventh by (rule be_bytes_length)
    have ex: "\<exists>status. dirs_status ?oh = Inr status
              \<and> be_value (data ! 6) = status AND dirs_mask
              \<and> pack Fmt_H (status AND dirs_mask) = Inr (data ! 6)"
      using st v packed seventh by auto
    show "length data = 7 \<and> length (data ! 6) = 2
        \<and> (\<exists>status. dirs_status ?oh = Inr status
              \<and> be_value (data ! 6) = status AND dirs_mask
              \<and> pack Fmt_H (status AND dirs_mask) = Inr (data ! 6))
        \<and> (\<forall>i. bit (be_value (data ! 6)) i \<longleftrightarrow>
              i < min (unat (NumberOfRvaAndSizes ?oh)) 16
              \<and> i \<noteq> 7 \<and> i \<noteq> 8 \<and> i \<noteq> 15
              \<and> dir_VirtualAddress (DATA_DIRECTORY ?oh ! i) \<noteq> 0)
        \<and> \<not> bit (be_value (data ! 6)) 7 \<and> \<not> bit (be_value (data ! 6)) 8
        \<and> \<not> bit (be_value (data ! 6)) 15
        \<and> (\<forall>i. 16 \<le> i \<longrightarrow> \<not> bit (be_value (data ! 6)) i)
        \<and> (NumberOfRvaAndSizes ?oh = 0 \<longrightarrow> be_value (data ! 6) = 0)"
      using len len2 ex bits b7 b8 b15 high zero unfolding v by blast
  qed
  from produces seventh_string show ?thesis by (rule conjI)
qed

theorem header_data_bitmap_witness:
  "dir_VirtualAddress (DATA_DIRECTORY (OPTIONAL_HEADER all_dirs_exe) ! 7) \<noteq> 0
   \<and> dir_VirtualAddress (DATA_DIRECTORY (OPTIONAL_HEADER all_dirs_exe) ! 15) \<noteq> 0
   \<and> (\<exists>data. header_data all_dirs_exe = Inr data \<and> length data = 7
         \<and> be_value (data ! 6) = 0x7E7F
         \<and> \<not> bit (be_value (data ! 6)) 7 \<and> \<not> bit (be_value (data ! 6)) 15)"
proof -
  let ?oh = "OPTIONAL_HEADER all_dirs_exe"
  have n: "NumberOfRvaAndSizes ?oh = 16" and d: "DATA_DIRECTORY ?oh = replicate 16 present_dir"
    by (simp_all add: all_dirs_exe_def)
  have present: "dir_VirtualAddress (DATA_DIRECTORY ?oh ! i) \<noteq> 0" if "i < 16" for i
    using that by (simp add: d present_dir_def)
  have fit: "align_up_value (uint (SizeOfStackCommit ?oh)) 4096 < 2 ^ 64
      \<and> align_up_value (uint (SizeOfHeapCommit ?oh)) 4096 < 2 ^ 64
      \<and> min (unat (NumberOfRvaAndSizes ?oh)) 16 \<le> length (DATA_DIRECTORY ?oh)"
    by (simp add: all_dirs_exe_def scenario_exe_def align_up_value_def)
  from header_data_bitmap [of all_dirs_exe] fit obtain data where
    produced: "header_data all_dirs_exe = Inr data" by blast
  from header_data_bitmap [of all_dirs_exe] produced have
    len: "length data = 7"
    and bits: "\<forall>i. bit (be_value (data ! 6)) i \<longleftrightarrow>
              i < min (unat (NumberOfRvaAndSizes ?oh)) 16
              \<and> i \<noteq> 7 \<and> i \<noteq> 8 \<and> i \<noteq> 15
              \<and> dir_VirtualAddress (DATA_DIRECTORY ?oh ! i) \<noteq> 0"
    and b7: "\<not> bit (be_value (data ! 6)) 7" and b15: "\<not> bit (be_value (data ! 6)) 15"
    by blast+
  have "be_value (data ! 6) = dirs_mask"
  proof (rule bit_eqI)
    fix i
    have "bit (be_value (data ! 6)) i \<longleftrightarrow> i < 16 \<and> i \<noteq> 7 \<and> i \<noteq> 8 \<and> i \<noteq> 15"
      using bits present [of i] by (auto simp add: n)
    also have "\<dots> \<longleftrightarrow> i < 15 \<and> i \<noteq> 7 \<and> i \<noteq> 8" by auto
    finally show "bit (be_value (data ! 6)) i \<longleftrightarrow> bit dirs_mask i"
      by (simp only: dirs_mask_bits)
  qed
  then have v: "be_value (data ! 6) = 0x7E7F" by (simp add: dirs_mask_def)
  from present [of 7] present [of 15] produced len v b7 b15 show ?thesis by auto
qed

lemma section_data_fit:
  assumes "align_up_value (uint (sec_VirtualAddress section)) 512 < 2 ^ 32"
      and "align_up_value (uint (SizeOfRawData section)) 256 < 2 ^ 32"
  shows "\<exists>ds. section_data compress section = Inr ds \<and> concat ds = section_bytes compress section"
proof -
  let ?va = "align_up_value (uint (sec_VirtualAddress section)) 512"
  let ?sz = "align_up_value (uint (SizeOfRawData section)) 256"
  have "0 \<le> ?va" by (rule align_up_value_nonneg) simp_all
  with assms(1) have p1: "pack Fmt_I ?va = Inr (be_bytes 4 ?va)" by (simp add: pack_def)
  have "0 \<le> ?sz" by (rule align_up_value_nonneg) simp_all
  with assms(2) have p2: "pack Fmt_I ?sz = Inr (be_bytes 4 ?sz)" by (simp add: pack_def)
  have "section_data compress section =
      Inr [be_bytes 4 ?va, be_bytes 4 ?sz,
           be_bytes 1 (uint (sec_Characteristics section) div 2 ^ 24),
           be_bytes 1 (expected_complexity compress section)]"
    unfolding section_data_def
    by (simp only: align_up_512 align_up_256 p1 p2 pack_B_top_byte pack_B_complexity and_then_simps)
  then show ?thesis by (simp add: section_bytes_def)
qed

lemma section_data_unfit:
  assumes "\<not> (align_up_value (uint (sec_VirtualAddress section)) 512 < 2 ^ 32
      \<and> align_up_value (uint (SizeOfRawData section)) 256 < 2 ^ 32)"
  shows "section_data compress section = Inl StructError"
proof -
  let ?va = "align_up_value (uint (sec_VirtualAddress section)) 512"
  let ?sz = "align_up_value (uint (SizeOfRawData section)) 256"
  have unf: "section_data compress section =
     and_then (pack Fmt_I ?va) (\<lambda>d1.
     and_then (pack Fmt_I ?sz) (\<lambda>d2.
     Inr [d1, d2, be_bytes 1 (uint (sec_Characteristics section) div 2 ^ 24),
           be_bytes 1 (expected_complexity compress section)]))"
    unfolding section_data_def
    by (simp only: align_up_512 align_up_256 pack_B_top_byte pack_B_complexity and_then_simps)
  show ?thesis
  proof (cases "?va < 2 ^ 32")
    case False
    then have "pack Fmt_I ?va = Inl StructError" by (simp add: pack_def)
    then show ?thesis unfolding unf by simp
  next
    case True
    have "0 \<le> ?va" by (rule align_up_value_nonneg) simp_all
    with True have p1: "pack Fmt_I ?va = Inr (be_bytes 4 ?va)" by (simp add: pack_def)
    from assms True have "\<not> ?sz < 2 ^ 32" by simp
    then have "pack Fmt_I ?sz = Inl StructError" by (simp add: pack_def)
    then show ?thesis unfolding unf p1 by simp
  qed
qed

lemma sections_loop_fit:
  assumes "list_all (\<lambda>section.
            align_up_value (uint (sec_VirtualAddress section)) 512 < 2 ^ 32
            \<and> align_up_value (uint (SizeOfRawData section)) 256 < 2 ^ 32) secs"
  shows "\<exists>ds. sections_loop compress secs data = Inr (data @ ds)
           \<and> concat ds = concat (map (section_bytes compress) secs)"
  using assms
proof (induction secs arbitrary: data)
  case Nil
  then show ?case by simp
next
  case (Cons s secs)
  from Cons.prems have fit: "align_up_value (uint (sec_VirtualAddress s)) 512 < 2 ^ 32"
      "align_up_value (uint (SizeOfRawData s)) 256 < 2 ^ 32"
    and rest: "list_all (\<lambda>section.
            align_up_value (uint (sec_VirtualAddress section)) 512 < 2 ^ 32
            \<and> align_up_value (uint (SizeOfRawData section)) 256 < 2 ^ 32) secs"
    by simp_all
  from section_data_fit [OF fit, of compress] obtain d where
    d: "section_data compress s = Inr d" "concat d = section_bytes compress s" by blast
  from Cons.IH [OF rest, of "data @ d"] obtain ds where
    ds: "sections_loop compress secs (data @ d) = Inr ((data @ d) @ ds)"
        "concat ds = concat (map (section_bytes compress) secs)" by blast
  have "sections_loop compress (s # secs) data = Inr (data @ (d @ ds))"
    using d(1) ds(1) by simp
  moreover have "concat (d @ ds) = concat (map (section_bytes compress) (s # secs))"
    using d(2) ds(2) by simp
  ultimately show ?case by blast
qed

lemma sections_loop_unfit:
  assumes "\<not> list_all (\<lambda>section.
            align_up_value (uint (sec_VirtualAddress section)) 512 < 2 ^ 32
            \<and> align_up_value (uint (SizeOfRawData section)) 256 < 2 ^ 32) secs"
  shows "sections_loop compress secs data = Inl StructError"
  using assms
proof (induction secs arbitrary: data)
  case Nil
  then show ?case by simp
next
  case (Cons s secs)
  show ?case
  proof (cases "align_up_value (uint (sec_VirtualAddress s)) 512 < 2 ^ 32
      \<and> align_up_value (uint (SizeOfRawData s)) 256 < 2 ^ 32")
    case False
    from section_data_unfit [OF this, of compress] show ?thesis by simp
  next
    case True
    then have fit: "align_up_value (uint (sec_VirtualAddress s)) 512 < 2 ^ 32"
      "align_up_value (uint (SizeOfRawData s)) 256 < 2 ^ 32" by simp_all
    from section_data_fit [OF fit, of compress] obtain d where
      d: "section_data compress s = Inr d" by blast
    from Cons.prems True have "\<not> list_all (\<lambda>section.
            align_up_value (uint (sec_VirtualAddress section)) 512 < 2 ^ 32
            \<and> align_up_value (uint (SizeOfRawData section)) 256 < 2 ^ 32) secs" by simp
    from Cons.IH [OF this, of "data @ d"] d show ?thesis by simp
  qed
qed

lemma structural_data_fit:
  assumes "fields_fit exe"
  shows "\<exists>data. structural_data compress exe = Inr data
           \<and> concat data = structural_bytes compress exe"
proof -
  from assms have
    stack: "align_up_value (uint (SizeOfStackCommit (OPTIONAL_HEADER exe))) 4096 < 2 ^ 64"
    and heap: "align_up_value (uint (SizeOfHeapCommit (OPTIONAL_HEADER exe))) 4096 < 2 ^ 64"
    and dirs: "min (unat (NumberOfRvaAndSizes (OPTIONAL_HEADER exe))) 16
                 \<le> length (DATA_DIRECTORY (OPTIONAL_HEADER exe))"
    and secs: "list_all (\<lambda>section.
            align_up_value (uint (sec_VirtualAddress section)) 512 < 2 ^ 32
            \<and> align_up_value (uint (SizeOfRawData section)) 256 < 2 ^ 32) (sections exe)"
    by (simp_all add: fields_fit_def)
  from header_data_fit [OF stack heap dirs] obtain hd where
    hd: "header_data exe = Inr hd" "concat hd = header_bytes exe" by blast
  from sections_loop_fit [OF secs, of compress hd] obtain ds where
    ds: "sections_loop compress (sections exe) hd = Inr (hd @ ds)"
        "concat ds = concat (map (section_bytes compress) (sections exe))" by blast
  have "structural_data compress exe = Inr (hd @ ds)"
    using hd(1) ds(1) by (simp add: structural_data_def)
  moreover have "concat (hd @ ds) = structural_bytes compress exe"
    using hd(2) ds(2) by (simp add: structural_bytes_def)
  ultimately show ?thesis by blast
qed

lemma structural_data_unfit:
  assumes "\<not> fields_fit exe"
  shows "structural_data compress exe = Inl StructError
       \<or> structural_data compress exe = Inl IndexError"
proof (cases "align_up_value (uint (SizeOfStackCommit (OPTIONAL_HEADER exe))) 4096 < 2 ^ 64
    \<and> align_up_value (uint (SizeOfHeapCommit (OPTIONAL_HEADER exe))) 4096 < 2 ^ 64
    \<and> min (unat (NumberOfRvaAndSizes (OPTIONAL_HEADER exe))) 16
                 \<le> length (DATA_DIRECTORY (OPTIONAL_HEADER exe))")
  case False
  from header_data_unfit [OF this] show ?thesis
    by (auto simp add: structural_data_def)
next
  case True
  then obtain hd where hd: "header_data exe = Inr hd"
    using header_data_fit [of exe] by blast
  from assms True have "\<not> list_all (\<lambda>section.
            align_up_value (uint (sec_VirtualAddress section)) 512 < 2 ^ 32
            \<and> align_up_value (uint (SizeOfRawData section)) 256 < 2 ^ 32) (sections exe)"
    by (simp add: fields_fit_def)
  from sections_loop_unfit [OF this, of compress hd] hd show ?thesis
    by (simp add: structural_data_def)
qed

lemma pehashng_Instance:
  "pehashng PE_new sha256 compress (Instance exe) logged =
     \<lparr>returned = (case structural_data compress exe of
                    Inl e \<Rightarrow> Inl e
                  | Inr data \<Rightarrow> Inr (Some (hexdigest (sha256 (concat data))))),
      exe_after = Some exe, log_after = logged\<rparr>"
  by (simp add: pehashng_def split: sum.split)

lemma pehashng_FileName_parsed:
  assumes "PE_new name = Inr exe"
  shows "pehashng PE_new sha256 compress (FileName name) logged =
     (case structural_data compress exe of
        Inl e \<Rightarrow> \<lparr>returned = Inl e, exe_after = Some exe, log_after = logged\<rparr>
      | Inr data \<Rightarrow>
          \<lparr>returned = Inr (Some (hexdigest (sha256 (concat data)))),
           exe_after = Some (close exe), log_after = logged\<rparr>)"
  using assms by (simp add: pehashng_def)

lemma returned_FileName_parsed:
  assumes "PE_new name = Inr exe"
  shows "returned (pehashng PE_new sha256 compress (FileName name) logged)
       = returned (pehashng PE_new sha256 compress (Instance exe) logged)"
  using assms by (simp add: pehashng_def split: sum.split)

subsection \<open>The examples, evaluated\<close>

lemma be_bytes_numeral:
  "be_bytes (numeral k) v = be_bytes (pred_numeral k) (v div 256) @ [word_of_int (v mod 256)]"
  by (simp add: numeral_eq_Suc)

lemma horner_sum_no_bits: "horner_sum of_bool (2::int) (map (\<lambda>i. False) xs) = 0"
  by (induction xs) simp_all

lemma expected_bitmap_no_dirs:
  "NumberOfRvaAndSizes oh = 0 \<Longrightarrow> expected_bitmap oh = 0"
  by (simp add: expected_bitmap_def horner_sum_no_bits)

lemma floor_rat_numeral: "\<lfloor>numeral a / numeral b :: rat\<rfloor> = numeral a div numeral b"
  using floor_divide_of_int_eq [of "numeral a" "numeral b", where ?'a = rat] by simp

lemma scenario_fits: "fields_fit scenario_exe"
  by (simp add: fields_fit_def scenario_exe_def scenario_section_def align_up_value_def)

lemma high_section_unfit: "\<not> fields_fit high_section_exe"
  by (simp add: fields_fit_def high_section_exe_def scenario_exe_def scenario_section_def
      align_up_value_def)

lemma sixteen_dirs_fits: "fields_fit sixteen_dirs_exe"
  by (simp add: fields_fit_def sixteen_dirs_exe_def scenario_exe_def scenario_section_def
      align_up_value_def)

lemma scenario_header_bytes:
  "header_bytes scenario_exe =
     [0x01, 0x02, 0x00, 0x02, 0x00, 0x00, 0x10, 0x00, 0x00, 0x00, 0x02, 0x00,
      0x00, 0x00, 0x00, 0x00, 0x00, 0x00, 0x10, 0x00,
      0x00, 0x00, 0x00, 0x00, 0x00, 0x10, 0x00, 0x00, 0x00, 0x00]"
  by (simp add: header_bytes_def scenario_exe_def align_up_value_def expected_bitmap_no_dirs
      align_down_p2_def bit_length_def nat_bit_length.simps be_bytes_numeral)

lemma scenario_complexity: "expected_complexity fourteen_bytes scenario_section = 0"
  by (simp add: expected_complexity_def scenario_section_def fourteen_bytes_def
      complexity_spec_def round_half_away_def floor_rat_numeral)

lemma scenario_section_bytes:
  "section_bytes fourteen_bytes scenario_section =
     [0x00, 0x00, 0x10, 0x00, 0x00, 0x00, 0x02, 0x00, 0x60, 0x00]"
  unfolding section_bytes_def scenario_complexity
  by (simp add: scenario_section_def align_up_value_def be_bytes_numeral)

lemma scenario_hex:
  "hexdigest (plain_bytes (structural_bytes fourteen_bytes scenario_exe)) =
     ''0102000200001000000002000000000000001000000000000010000000000000100000000200''
     @ ''6000''"
  unfolding structural_bytes_def scenario_header_bytes
  by (simp add: scenario_exe_def scenario_section_bytes plain_bytes_def hexdigest_def hex_digit_def)

subsection \<open>What \<^verbatim>\<open>pehashng\<close> returns\<close>

text \<open>
  The digest of a file whose aligned values fit their fields. When \<open>fields_fit\<close> holds,
  \<open>pehashng\<close> returns the lowercase hexadecimal digest of exactly the byte string the
  specification describes: the seven header fields, then four fields per section in the
  order of the section list, big-endian and without separators. The same holds for a
  file name that the reader parses to this view.
\<close>

theorem pehashng_digest_of_structural_bytes:
  assumes "fields_fit exe"
  shows "returned (pehashng PE_new sha256 compress (Instance exe) logged)
           = Inr (Some (hexdigest (sha256 (structural_bytes compress exe))))
       \<and> (PE_new name = Inr exe \<longrightarrow>
            returned (pehashng PE_new sha256 compress (FileName name) logged)
              = Inr (Some (hexdigest (sha256 (structural_bytes compress exe)))))"
proof -
  from structural_data_fit [OF assms, of compress] obtain data where
    d: "structural_data compress exe = Inr data" "concat data = structural_bytes compress exe"
    by blast
  have i: "returned (pehashng PE_new sha256 compress (Instance exe) logged)
           = Inr (Some (hexdigest (sha256 (structural_bytes compress exe))))"
    unfolding pehashng_Instance using d by simp
  with returned_FileName_parsed [of PE_new name exe sha256 compress logged]
  show ?thesis by simp
qed

theorem pehashng_digest_of_structural_bytes_witness:
  "fields_fit scenario_exe
   \<and> scenario_reader ''a.exe'' = Inr scenario_exe
   \<and> returned (pehashng scenario_reader plain_bytes fourteen_bytes (Instance scenario_exe) [])
       = Inr (Some (''0102000200001000000002000000000000001000000000000010000000000000100000000200''
                    @ ''6000''))
   \<and> returned (pehashng scenario_reader plain_bytes fourteen_bytes (FileName ''a.exe'') [])
       = Inr (Some (''0102000200001000000002000000000000001000000000000010000000000000100000000200''
                    @ ''6000''))"
proof -
  have r: "scenario_reader ''a.exe'' = Inr scenario_exe" by (simp add: scenario_reader_def)
  from pehashng_digest_of_structural_bytes [OF scenario_fits,
      of scenario_reader plain_bytes fourteen_bytes "[]" "''a.exe''"] r
  show ?thesis
    unfolding scenario_hex using scenario_fits by blast
qed

text \<open>
  The converse: when an aligned value does not fit its field, or the directory list is
  shorter than the loop's range, \<open>pehashng\<close> raises and returns nothing.
\<close>

theorem pehashng_raises_when_fields_do_not_fit:
  assumes "\<not> fields_fit exe"
  shows "returned (pehashng PE_new sha256 compress (Instance exe) logged) = Inl StructError
       \<or> returned (pehashng PE_new sha256 compress (Instance exe) logged) = Inl IndexError"
  using structural_data_unfit [OF assms, of compress]
  unfolding pehashng_Instance by auto

theorem pehashng_raises_when_fields_do_not_fit_witness:
  "\<not> fields_fit high_section_exe
   \<and> returned (pehashng scenario_reader plain_bytes fourteen_bytes (Instance high_section_exe) [])
       \<noteq> Inr (Some (hexdigest (plain_bytes (structural_bytes fourteen_bytes high_section_exe))))"
proof -
  from pehashng_raises_when_fields_do_not_fit [OF high_section_unfit,
      of scenario_reader plain_bytes fourteen_bytes "[]"]
  show ?thesis using high_section_unfit by auto
qed

lemma structural_data_high_section:
  "structural_data compress high_section_exe = Inl StructError"
proof -
  have "header_data high_section_exe = header_data scenario_exe"
    by (simp add: header_data_def high_section_exe_def)
  moreover from scenario_fits obtain hd where "header_data scenario_exe = Inr hd"
    using header_data_fit [of scenario_exe] by (auto simp add: fields_fit_def)
  ultimately have hd: "header_data high_section_exe = Inr hd" by simp
  have "\<not> list_all (\<lambda>section.
            align_up_value (uint (sec_VirtualAddress section)) 512 < 2 ^ 32
            \<and> align_up_value (uint (SizeOfRawData section)) 256 < 2 ^ 32)
          (sections high_section_exe)"
    by (simp add: high_section_exe_def scenario_section_def align_up_value_def)
  from sections_loop_unfit [OF this, of compress hd] hd
  show ?thesis by (simp add: structural_data_def)
qed

text \<open>
  Claim C1, at an input where it fails. The reader accepts any 32-bit virtual address.
  For a section at \<^verbatim>\<open>0xFFFFFFFF\<close>, \<open>align_up\<close> returns \<open>2 ^ 32\<close>, which
  \<^verbatim>\<open>pack('> I', ...)\<close> rejects: the call raises \<^verbatim>\<open>struct.error\<close> instead of returning a
  digest, for every hash function, compressor and log.
\<close>

theorem pehashng_raises_on_high_section:
  "align_up (uint (sec_VirtualAddress (hd (sections high_section_exe)))) 512 = Inr (2 ^ 32)
   \<and> pack Fmt_I (2 ^ 32) = Inl StructError
   \<and> pehashng PE_new sha256 compress (Instance high_section_exe) logged =
       \<lparr>returned = Inl StructError, exe_after = Some high_section_exe, log_after = logged\<rparr>"
proof (intro conjI)
  have "align_up_value (uint (0xFFFFFFFF :: 32 word)) 512 = 2 ^ 32"
    by (simp add: align_up_value_def)
  then show "align_up (uint (sec_VirtualAddress (hd (sections high_section_exe)))) 512
      = Inr (2 ^ 32)"
    by (simp add: align_up_512 high_section_exe_def)
  show "pack Fmt_I (2 ^ 32) = Inl StructError"
    by (simp add: pack_def)
  show "pehashng PE_new sha256 compress (Instance high_section_exe) logged =
       \<lparr>returned = Inl StructError, exe_after = Some high_section_exe, log_after = logged\<rparr>"
    unfolding pehashng_Instance structural_data_high_section by simp
qed

section \<open>Insensitivity, failure and effects\<close>

lemma header_data_masked_dirs:
  assumes fh: "FILE_HEADER exe' = FILE_HEADER exe"
    and oh: "OPTIONAL_HEADER exe' = (OPTIONAL_HEADER exe)\<lparr>DATA_DIRECTORY := dirs'\<rparr>"
    and len: "length dirs' = length (DATA_DIRECTORY (OPTIONAL_HEADER exe))"
    and same: "\<forall>i<length dirs'. i \<noteq> 7 \<and> i \<noteq> 8 \<and> i \<noteq> 15 \<longrightarrow>
                 dirs' ! i = DATA_DIRECTORY (OPTIONAL_HEADER exe) ! i"
  shows "header_data exe' = header_data exe"
proof -
  have l: "length (DATA_DIRECTORY (OPTIONAL_HEADER exe'))
             = length (DATA_DIRECTORY (OPTIONAL_HEADER exe))"
    using oh len by simp
  have n: "NumberOfRvaAndSizes (OPTIONAL_HEADER exe') = NumberOfRvaAndSizes (OPTIONAL_HEADER exe)"
    using oh by simp
  have s: "\<forall>i<length (DATA_DIRECTORY (OPTIONAL_HEADER exe)). i \<noteq> 7 \<and> i \<noteq> 8 \<and> i \<noteq> 15 \<longrightarrow>
             (dir_VirtualAddress (DATA_DIRECTORY (OPTIONAL_HEADER exe') ! i) = 0)
               = (dir_VirtualAddress (DATA_DIRECTORY (OPTIONAL_HEADER exe) ! i) = 0)"
    using oh len same by simp
  have f: "Subsystem (OPTIONAL_HEADER exe') = Subsystem (OPTIONAL_HEADER exe)"
      "SectionAlignment (OPTIONAL_HEADER exe') = SectionAlignment (OPTIONAL_HEADER exe)"
      "FileAlignment (OPTIONAL_HEADER exe') = FileAlignment (OPTIONAL_HEADER exe)"
      "SizeOfStackCommit (OPTIONAL_HEADER exe') = SizeOfStackCommit (OPTIONAL_HEADER exe)"
      "SizeOfHeapCommit (OPTIONAL_HEADER exe') = SizeOfHeapCommit (OPTIONAL_HEADER exe)"
    using oh by simp_all
  from dirs_status_masked_cong [OF l n s] show ?thesis
  proof (elim disjE conjE exE)
    assume "dirs_status (OPTIONAL_HEADER exe') = Inl IndexError"
      "dirs_status (OPTIONAL_HEADER exe) = Inl IndexError"
    then show ?thesis
      unfolding header_data_def by (simp only: fh f and_then_simps)
  next
    fix st st'
    assume "dirs_status (OPTIONAL_HEADER exe') = Inr st'"
      "dirs_status (OPTIONAL_HEADER exe) = Inr st"
      "st' AND dirs_mask = st AND dirs_mask"
    then show ?thesis
      unfolding header_data_def by (simp only: fh f and_then_simps)
  qed
qed

text \<open>
  Claim C7. Two PE views that agree on the file header, on the sections and on the
  optional header except for the directory entries at indices 7, 8 and 15 (the lists
  have the same length) give the same result: the same digest, or the same exception.
  This holds for two instances and for two file names that the reader parses to them.
\<close>

theorem masked_directories_do_not_change_digest:
  assumes fh: "FILE_HEADER exe' = FILE_HEADER exe"
    and secs: "sections exe' = sections exe"
    and oh: "OPTIONAL_HEADER exe' = (OPTIONAL_HEADER exe)\<lparr>DATA_DIRECTORY := dirs'\<rparr>"
    and len: "length dirs' = length (DATA_DIRECTORY (OPTIONAL_HEADER exe))"
    and same: "\<forall>i<length dirs'. i \<noteq> 7 \<and> i \<noteq> 8 \<and> i \<noteq> 15 \<longrightarrow>
                 dirs' ! i = DATA_DIRECTORY (OPTIONAL_HEADER exe) ! i"
  shows "returned (pehashng PE_new sha256 compress (Instance exe') logged)
       = returned (pehashng PE_new sha256 compress (Instance exe) logged)
     \<and> (PE_new name = Inr exe \<and> PE_new' name' = Inr exe' \<longrightarrow>
          returned (pehashng PE_new' sha256 compress (FileName name') logged)
          = returned (pehashng PE_new sha256 compress (FileName name) logged))"
proof -
  have "structural_data compress exe' = structural_data compress exe"
    unfolding structural_data_def header_data_masked_dirs [OF fh oh len same] secs ..
  then have i: "returned (pehashng P sha256 compress (Instance exe') logged)
       = returned (pehashng Q sha256 compress (Instance exe) logged)" for P Q
    unfolding pehashng_Instance by simp
  have "returned (pehashng PE_new' sha256 compress (FileName name') logged)
          = returned (pehashng PE_new sha256 compress (FileName name) logged)"
    if "PE_new name = Inr exe" "PE_new' name' = Inr exe'"
    using returned_FileName_parsed [where PE_new = PE_new and name = name, OF that(1),
        of sha256 compress logged]
      returned_FileName_parsed [where PE_new = PE_new' and name = name', OF that(2),
        of sha256 compress logged]
      i [of PE_new' PE_new]
    by simp
  with i [of PE_new PE_new] show ?thesis by blast
qed

theorem masked_directories_do_not_change_digest_witness:
  "DATA_DIRECTORY (OPTIONAL_HEADER masked_dirs_exe)
     \<noteq> DATA_DIRECTORY (OPTIONAL_HEADER sixteen_dirs_exe)
   \<and> returned (pehashng scenario_reader plain_bytes fourteen_bytes (Instance masked_dirs_exe) [])
     = returned (pehashng scenario_reader plain_bytes fourteen_bytes (Instance sixteen_dirs_exe) [])"
proof -
  let ?dirs' = "(replicate 16 absent_dir)[7 := present_dir, 8 := present_dir, 15 := present_dir]"
  have len: "length ?dirs' = length (DATA_DIRECTORY (OPTIONAL_HEADER sixteen_dirs_exe))"
    by (simp add: masked_dirs_header(6))
  have same: "\<forall>i<length ?dirs'. i \<noteq> 7 \<and> i \<noteq> 8 \<and> i \<noteq> 15 \<longrightarrow>
                 ?dirs' ! i = DATA_DIRECTORY (OPTIONAL_HEADER sixteen_dirs_exe) ! i"
    by (simp add: masked_dirs_header(6))
  have "DATA_DIRECTORY (OPTIONAL_HEADER masked_dirs_exe) ! 7
      \<noteq> DATA_DIRECTORY (OPTIONAL_HEADER sixteen_dirs_exe) ! 7"
    by (simp add: masked_dirs_header(2,6) present_dir_def absent_dir_def)
  then have d: "DATA_DIRECTORY (OPTIONAL_HEADER masked_dirs_exe)
     \<noteq> DATA_DIRECTORY (OPTIONAL_HEADER sixteen_dirs_exe)"
    by auto
  from masked_directories_do_not_change_digest
    [OF masked_dirs_header(3) masked_dirs_header(4) masked_dirs_header(5) len same,
     of scenario_reader plain_bytes fourteen_bytes "[]"] d
  show ?thesis by blast
qed

text \<open>
  Claim C8. When the reader raises \<^verbatim>\<open>PEFormatError\<close> for the file name, \<open>pehashng\<close>
  returns \<^verbatim>\<open>None\<close>: no digest, no PE object, and one record logged. The outcome does
  not depend on \<open>sha256\<close> or \<open>compress\<close>: nothing is hashed.
\<close>

theorem pehashng_format_error_returns_None:
  assumes "PE_new name = Inl PEFormatError"
  shows "pehashng PE_new sha256 compress (FileName name) logged =
           \<lparr>returned = Inr None, exe_after = None,
            log_after = logged @ [''Exception in pefile:'']\<rparr>"
  using assms by (simp add: pehashng_def)

theorem pehashng_format_error_returns_None_witness:
  "rejecting_reader ''truncated.bin'' = Inl PEFormatError
   \<and> returned (pehashng rejecting_reader plain_bytes fourteen_bytes
                 (FileName ''truncated.bin'') []) = Inr None
   \<and> exe_after (pehashng rejecting_reader plain_bytes fourteen_bytes
                 (FileName ''truncated.bin'') []) = None"
proof -
  have h: "rejecting_reader ''truncated.bin'' = Inl PEFormatError"
    by (simp add: rejecting_reader_def)
  from pehashng_format_error_returns_None
    [where PE_new = rejecting_reader and name = "''truncated.bin''", OF h,
     of plain_bytes fourteen_bytes "[]"] h
  show ?thesis by simp
qed

lemma structural_data_views:
  assumes "FILE_HEADER exe' = FILE_HEADER exe" "OPTIONAL_HEADER exe' = OPTIONAL_HEADER exe"
    "sections exe' = sections exe"
  shows "structural_data compress exe' = structural_data compress exe"
  using assms by (simp add: structural_data_def header_data_def)

text \<open>
  Claim C9. Called on a PE instance, \<open>pehashng\<close> leaves the instance and the log as they
  were, so a second call gives the outcome of the first; the result depends neither on
  the log nor on the reader, and it is the same for any two instances with the same
  file header, optional header and sections. (The library functions \<open>sha256\<close> and
  \<open>compress\<close> are functions of their argument in this model.)
\<close>

theorem pehashng_deterministic:
  "exe_after (pehashng PE_new sha256 compress (Instance exe) logged) = Some exe
   \<and> log_after (pehashng PE_new sha256 compress (Instance exe) logged) = logged
   \<and> pehashng PE_new sha256 compress (Instance exe)
        (log_after (pehashng PE_new sha256 compress (Instance exe) logged))
      = pehashng PE_new sha256 compress (Instance exe) logged
   \<and> returned (pehashng PE_new' sha256 compress (Instance exe) logged')
      = returned (pehashng PE_new sha256 compress (Instance exe) logged)
   \<and> (FILE_HEADER exe' = FILE_HEADER exe \<and> OPTIONAL_HEADER exe' = OPTIONAL_HEADER exe
        \<and> sections exe' = sections exe \<longrightarrow>
      returned (pehashng PE_new sha256 compress (Instance exe') logged)
      = returned (pehashng PE_new sha256 compress (Instance exe) logged))"
proof (intro conjI impI)
  show "exe_after (pehashng PE_new sha256 compress (Instance exe) logged) = Some exe"
    unfolding pehashng_Instance by simp
  show l: "log_after (pehashng PE_new sha256 compress (Instance exe) logged) = logged"
    unfolding pehashng_Instance by simp
  show "pehashng PE_new sha256 compress (Instance exe)
        (log_after (pehashng PE_new sha256 compress (Instance exe) logged))
      = pehashng PE_new sha256 compress (Instance exe) logged"
    unfolding l ..
  show "returned (pehashng PE_new' sha256 compress (Instance exe) logged')
      = returned (pehashng PE_new sha256 compress (Instance exe) logged)"
    unfolding pehashng_Instance by simp
next
  assume "FILE_HEADER exe' = FILE_HEADER exe \<and> OPTIONAL_HEADER exe' = OPTIONAL_HEADER exe
        \<and> sections exe' = sections exe"
  then have "structural_data compress exe' = structural_data compress exe"
    by (intro structural_data_views) simp_all
  then show "returned (pehashng PE_new sha256 compress (Instance exe') logged)
      = returned (pehashng PE_new sha256 compress (Instance exe) logged)"
    unfolding pehashng_Instance by simp
qed

theorem pehashng_deterministic_witness:
  "FILE_HEADER (close scenario_exe) = FILE_HEADER scenario_exe
   \<and> OPTIONAL_HEADER (close scenario_exe) = OPTIONAL_HEADER scenario_exe
   \<and> sections (close scenario_exe) = sections scenario_exe
   \<and> close scenario_exe \<noteq> scenario_exe
   \<and> returned (pehashng scenario_reader plain_bytes fourteen_bytes
                 (Instance (close scenario_exe)) [])
      = returned (pehashng scenario_reader plain_bytes fourteen_bytes (Instance scenario_exe) [])
   \<and> returned (pehashng rejecting_reader plain_bytes fourteen_bytes
                 (Instance scenario_exe) [''earlier record''])
      = returned (pehashng scenario_reader plain_bytes fourteen_bytes (Instance scenario_exe) [])"
proof -
  have v: "FILE_HEADER (close scenario_exe) = FILE_HEADER scenario_exe
     \<and> OPTIONAL_HEADER (close scenario_exe) = OPTIONAL_HEADER scenario_exe
     \<and> sections (close scenario_exe) = sections scenario_exe"
    by (simp add: close_def)
  have "closed (close scenario_exe) \<noteq> closed scenario_exe"
    by (simp add: close_def scenario_exe_def)
  then have d: "close scenario_exe \<noteq> scenario_exe" by auto
  from pehashng_deterministic [of scenario_reader plain_bytes fourteen_bytes scenario_exe "[]"
      rejecting_reader "[''earlier record'']" "close scenario_exe"] v d
  show ?thesis by simp
qed

text \<open>
  Where the object is closed. Called with a file name that the reader parses,
  \<open>pehashng\<close> has closed the PE object it opened whenever it returns a result, and it
  does return one, a digest, when the aligned values fit their fields; called with a PE
  instance, it leaves the instance exactly as it was, in every case.
\<close>

theorem pehashng_closes_only_what_it_opened:
  "(PE_new name = Inr exe
      \<and> returned (pehashng PE_new sha256 compress (FileName name) logged) = Inr result
    \<longrightarrow> exe_after (pehashng PE_new sha256 compress (FileName name) logged) = Some (close exe)
        \<and> closed (close exe))
   \<and> (PE_new name = Inr exe \<and> fields_fit exe
    \<longrightarrow> (\<exists>digest. returned (pehashng PE_new sha256 compress (FileName name) logged)
                   = Inr (Some digest))
        \<and> exe_after (pehashng PE_new sha256 compress (FileName name) logged)
            = Some (close exe))
   \<and> exe_after (pehashng PE_new sha256 compress (Instance exe') logged) = Some exe'"
proof (intro conjI impI)
  assume f: "PE_new name = Inr exe \<and> fields_fit exe"
  then have p: "PE_new name = Inr exe" and fit: "fields_fit exe" by simp_all
  from structural_data_fit [OF fit, of compress] obtain data where
    d: "structural_data compress exe = Inr data" by blast
  show "\<exists>digest. returned (pehashng PE_new sha256 compress (FileName name) logged)
                   = Inr (Some digest)"
    unfolding pehashng_FileName_parsed [where PE_new = PE_new and name = name, OF p]
    using d by simp
  show "exe_after (pehashng PE_new sha256 compress (FileName name) logged) = Some (close exe)"
    unfolding pehashng_FileName_parsed [where PE_new = PE_new and name = name, OF p]
    using d by simp
next
  assume a: "PE_new name = Inr exe
      \<and> returned (pehashng PE_new sha256 compress (FileName name) logged) = Inr result"
  then have p: "PE_new name = Inr exe" by simp
  from a show "exe_after (pehashng PE_new sha256 compress (FileName name) logged)
      = Some (close exe)"
    unfolding pehashng_FileName_parsed [where PE_new = PE_new and name = name, OF p]
    by (simp split: sum.splits)
  show "closed (close exe)" by (simp add: close_def)
next
  show "exe_after (pehashng PE_new sha256 compress (Instance exe') logged) = Some exe'"
    unfolding pehashng_Instance by simp
qed

theorem pehashng_closes_only_what_it_opened_witness:
  "scenario_reader ''a.exe'' = Inr scenario_exe
   \<and> \<not> closed scenario_exe
   \<and> (\<exists>result. returned (pehashng scenario_reader plain_bytes fourteen_bytes
                           (FileName ''a.exe'') []) = Inr result)
   \<and> exe_after (pehashng scenario_reader plain_bytes fourteen_bytes (FileName ''a.exe'') [])
       = Some (scenario_exe\<lparr>closed := True\<rparr>)
   \<and> exe_after (pehashng scenario_reader plain_bytes fourteen_bytes (Instance scenario_exe) [])
       = Some scenario_exe"
proof -
  have r: "scenario_reader ''a.exe'' = Inr scenario_exe" by (simp add: scenario_reader_def)
  have o: "\<not> closed scenario_exe" by (simp add: scenario_exe_def)
  from structural_data_fit [OF scenario_fits, of fourteen_bytes] obtain data where
    "structural_data fourteen_bytes scenario_exe = Inr data" by blast
  then have ret: "returned (pehashng scenario_reader plain_bytes fourteen_bytes
                           (FileName ''a.exe'') [])
      = Inr (Some (hexdigest (plain_bytes (concat data))))"
    unfolding pehashng_FileName_parsed
      [where PE_new = scenario_reader and name = "''a.exe''", OF r] by simp
  from pehashng_closes_only_what_it_opened
    [of scenario_reader "''a.exe''" scenario_exe plain_bytes fourteen_bytes "[]"
        "Some (hexdigest (plain_bytes (concat data)))" scenario_exe] r ret
  have "exe_after (pehashng scenario_reader plain_bytes fourteen_bytes (FileName ''a.exe'') [])
         = Some (close scenario_exe)"
    and "exe_after (pehashng scenario_reader plain_bytes fourteen_bytes (Instance scenario_exe) [])
       = Some scenario_exe"
    by blast+
  with r o ret show ?thesis by (simp add: close_def)
qed

text \<open>
  When \<open>pehashng\<close> opened the file itself and then raises, line 107 is never reached:
  the PE object is left as the reader created it, not closed.
\<close>

theorem pehashng_raise_leaves_file_open:
  assumes "PE_new name = Inr exe" "\<not> fields_fit exe"
  shows "(returned (pehashng PE_new sha256 compress (FileName name) logged) = Inl StructError
          \<or> returned (pehashng PE_new sha256 compress (FileName name) logged) = Inl IndexError)
       \<and> exe_after (pehashng PE_new sha256 compress (FileName name) logged) = Some exe"
  using structural_data_unfit [OF assms(2), of compress]
  unfolding pehashng_FileName_parsed [where PE_new = PE_new and name = name, OF assms(1)]
  by auto

text \<open>
  Claim C10, at an input where it fails. Called with the name of a file that the reader
  parses to the view with the section at \<^verbatim>\<open>0xFFFFFFFF\<close>, \<open>pehashng\<close> opens the PE object,
  raises \<^verbatim>\<open>struct.error\<close> at line 86 and leaves through the exception: lines 106 and 107
  are not in a \<^verbatim>\<open>finally\<close> clause and do not run. The object the call opened is still
  open afterwards, for every hash function, compressor, file name and log.
\<close>

theorem pehashng_leaves_raising_file_open:
  "high_section_reader name = Inr high_section_exe
   \<and> \<not> closed high_section_exe
   \<and> pehashng high_section_reader sha256 compress (FileName name) logged =
       \<lparr>returned = Inl StructError, exe_after = Some high_section_exe, log_after = logged\<rparr>
   \<and> exe_after (pehashng high_section_reader sha256 compress (FileName name) logged)
       \<noteq> Some (close high_section_exe)"
proof -
  have r: "high_section_reader name = Inr high_section_exe"
    by (simp add: high_section_reader_def)
  have c: "\<not> closed high_section_exe"
    by (simp add: high_section_exe_def scenario_exe_def)
  have o: "pehashng high_section_reader sha256 compress (FileName name) logged =
       \<lparr>returned = Inl StructError, exe_after = Some high_section_exe, log_after = logged\<rparr>"
    unfolding pehashng_FileName_parsed
      [where PE_new = high_section_reader and name = name, OF r]
      structural_data_high_section
    by simp
  have "closed (close high_section_exe)" by (simp add: close_def)
  with c have "close high_section_exe \<noteq> high_section_exe" by auto
  with r c o show ?thesis by simp
qed

end
